theory Spec2Isabelle
  imports Main "HOL-Library.Word"
begin

section \<open>Error codes, exceptions and the log\<close>

text \<open>
  Modelled from the spec: the header \<^verbatim>\<open>ss/Server.hpp\<close> that declares
  \<^verbatim>\<open>ss::error_code\<close> and \<^verbatim>\<open>ss::error::SessionError\<close> is not among the sources.
  The spec gives the handler statuses Success, PartialData and "other"; \<^verbatim>\<open>Server.cpp\<close>
  compares error codes with \<^verbatim>\<open>asio::error::eof\<close> and \<^verbatim>\<open>asio::error::operation_aborted\<close>.
  A default constructed \<^verbatim>\<open>error_code{}\<close> and \<^verbatim>\<open>SessionError::Success\<close> are the one
  value for which \<^verbatim>\<open>failed()\<close> is false.
\<close>

datatype error_code = Success | PartialData | Eof | OperationAborted | OtherError nat

definition failed :: "error_code \<Rightarrow> bool" where
  "failed err = (err \<noteq> Success)"

datatype exception =
    InvalidArgument string
  | SystemError error_code
  | OtherException string

datatype log_level = TRACE | DEBUG | INFO | WARNING | ERROR

datatype log_text =
    Text string
  | Message error_code
  | What exception

text \<open>
  Everything a session or a server does to the outside world is appended to a list of
  actions, in program order: log records, calls into the request handler and its factory,
  and operations on the socket or the acceptor.
\<close>

datatype action =
    Log log_level log_text
  | AtSessionStart string
  | HandleCall string error_code string nat
  | AtSessionClose
  | AsyncRead
  | AsyncWrite string
  | SocketCancel
  | SocketShutdown
  | SocketClose
  | AsyncAccept
  | MakeRequestHandler

section \<open>The request handler\<close>

text \<open>
  Modelled from the spec: \<^verbatim>\<open>AbstractRequestHandler\<close> is declared in the missing header.
  A handler is an object with a state of its own (\<open>'h\<close>) and three operations.
  \<open>handle\<close> receives the request view; it returns its status, the bytes it pushed
  through the response inserter and the final value of \<^verbatim>\<open>reqIgnoreLength\<close> (which the
  session sets to 0 before every call), a \<^verbatim>\<open>size_t\<close> and so a number below \<open>2^64\<close>.
\<close>

record 'h request_handler =
  atSessionStart :: "'h \<Rightarrow> string \<Rightarrow> error_code \<times> 'h"
  handle :: "'h \<Rightarrow> string \<Rightarrow> (error_code \<times> string \<times> nat) \<times> 'h"
  atSessionClose :: "'h \<Rightarrow> 'h"

subsection \<open>The echo handler of \<^verbatim>\<open>test/main.cpp\<close>\<close>

text \<open>
  \<^verbatim>\<open>std::regex lineReg{R"(^[^\n]*\n)"}\<close>, first token of the request: the request up to
  and including its first line feed, when it has one.
\<close>

definition lineReg_first :: "string \<Rightarrow> string option" where
  "lineReg_first request =
     (if CHR 0x0A \<in> set request
      then Some (takeWhile (\<lambda>c. c \<noteq> CHR 0x0A) request @ [CHR 0x0A])
      else None)"

definition echo_atSessionStart :: "unit \<Rightarrow> string \<Rightarrow> error_code \<times> unit" where
  "echo_atSessionStart h remoteEndpoint = (Success, h)"

definition echo_handle :: "unit \<Rightarrow> string \<Rightarrow> (error_code \<times> string \<times> nat) \<times> unit" where
  "echo_handle h request =
     (case lineReg_first request of
        None \<Rightarrow> ((PartialData, [], 0), h)
      | Some echo \<Rightarrow> ((Success, echo, length echo), h))"

definition EchoReqHandler :: "unit request_handler" where
  "EchoReqHandler =
     \<lparr>atSessionStart = echo_atSessionStart,
      handle = echo_handle,
      atSessionClose = (\<lambda>h. h)\<rparr>"

section \<open>The session\<close>

text \<open>
  The socket of a session. What the operating system answers to \<^verbatim>\<open>remote_endpoint\<close>,
  \<^verbatim>\<open>cancel\<close>, \<^verbatim>\<open>shutdown\<close> and \<^verbatim>\<open>close\<close> is a parameter of the socket.
\<close>

record socket =
  is_open :: bool
  remote_endpoint :: "exception + string"
  cancel_result :: error_code
  shutdown_result :: error_code
  close_result :: error_code

text \<open>
  The resumption point of an \<^verbatim>\<open>asio::coroutine\<close>: not yet entered, suspended at the
  first or at the second \<^verbatim>\<open>yield\<close> of the body, or complete.
\<close>

datatype coroutine = Initial | Yield1 | Yield2 | Complete

datatype pending_op = PendingRead | PendingWrite

record 'h session =
  socket :: socket
  reqHandler :: 'h
  reqBuffer :: string
  resBuffer :: string
  coro :: coroutine
  pending :: "pending_op option"
  events :: "action list"

definition new_session :: "socket \<Rightarrow> 'h \<Rightarrow> 'h session" where
  "new_session sock handler =
     \<lparr>socket = sock, reqHandler = handler, reqBuffer = [], resBuffer = [],
      coro = Initial, pending = None,
      events = [Log TRACE (Text ''construct session'')]\<rparr>"

definition emit :: "action \<Rightarrow> 'h session \<Rightarrow> 'h session" where
  "emit a s = s\<lparr>events := events s @ [a]\<rparr>"

definition isOpen :: "'h session \<Rightarrow> bool" where
  "isOpen s = is_open (socket s)"

text \<open>\<^verbatim>\<open>Session::close\<close>.\<close>

definition close :: "'h session \<Rightarrow> 'h session" where
  "close s =
     (if is_open (socket s) = False
      then emit (Log WARNING (Text ''session already closed'')) s
      else
        let s1 = emit (Log TRACE (Text ''close session'')) s;
            s2 = emit SocketCancel s1
        in if failed (cancel_result (socket s2))
           then emit (Log ERROR (Message (cancel_result (socket s2)))) s2
           else s2)"

text \<open>\<^verbatim>\<open>Session::atClose\<close>. The socket is closed afterwards whatever \<^verbatim>\<open>close\<close> reports.\<close>

definition atClose :: "'h request_handler \<Rightarrow> 'h session \<Rightarrow> 'h session" where
  "atClose H s =
     (let s1 = emit (Log TRACE (Text ''at session close'')) s;
          s2 = emit AtSessionClose (s1\<lparr>reqHandler := atSessionClose H (reqHandler s1)\<rparr>);
          s3 = emit SocketShutdown s2;
          s4 = (if failed (shutdown_result (socket s3))
                then emit (Log ERROR (Message (shutdown_result (socket s3)))) s3
                else s3);
          s5 = emit SocketClose (s4\<lparr>socket := (socket s4)\<lparr>is_open := False\<rparr>\<rparr>)
      in if failed (close_result (socket s5))
         then emit (Log ERROR (Message (close_result (socket s5)))) s5
         else s5)"

subsection \<open>The request handling loop\<close>

text \<open>
  \<^verbatim>\<open>std::string_view reqBufferView\<close>: a pointer into \<^verbatim>\<open>reqBuffer_\<close>, kept as the offset
  from \<^verbatim>\<open>reqBuffer_.data()\<close>, and a size.
\<close>

record string_view =
  sv_data :: nat
  sv_size :: nat

definition view_of :: "string \<Rightarrow> string_view" where
  "view_of buf = \<lparr>sv_data = 0, sv_size = length buf\<rparr>"

definition view_contents :: "string \<Rightarrow> string_view \<Rightarrow> string" where
  "view_contents buf v = take (sv_size v) (drop (sv_data v) buf)"

definition advance :: "string_view \<Rightarrow> nat \<Rightarrow> string_view" where
  "advance v n = \<lparr>sv_data = sv_data v + n, sv_size = sv_size v - n\<rparr>"

text \<open>
  The three ways out of the inner \<^verbatim>\<open>for (;;)\<close>: the \<^verbatim>\<open>break\<close> after
  \<^verbatim>\<open>reqBuffer_.clear()\<close>, the \<^verbatim>\<open>break\<close> of the partial data branch, and the
  \<^verbatim>\<open>return\<close> of the unexpected error branch.

  In the partial data branch the count given to \<^verbatim>\<open>erase\<close> is the pointer difference
  plus \<^verbatim>\<open>reqIgnoreLength\<close>, a sum computed in \<^verbatim>\<open>size_t\<close> (64 bits): it wraps around.
  \<^verbatim>\<open>erase(0, count)\<close> removes the first \<open>count\<close> bytes, or all of them when there are
  fewer.
\<close>

datatype loop_exit = BreakCleared | BreakPartial | ReturnError error_code

function handle_loop ::
  "'h request_handler \<Rightarrow> 'h session \<Rightarrow> string_view \<Rightarrow> loop_exit \<times> 'h session" where
  "handle_loop H s reqBufferView =
     (case handle H (reqHandler s) (view_contents (reqBuffer s) reqBufferView) of
        ((err, out, reqIgnoreLength), h') \<Rightarrow>
          let s1 = emit (HandleCall (view_contents (reqBuffer s) reqBufferView) err out reqIgnoreLength)
                     (s\<lparr>reqHandler := h', resBuffer := resBuffer s @ out\<rparr>)
          in if failed err = False then
               if reqIgnoreLength = 0 \<or> reqIgnoreLength \<ge> sv_size reqBufferView
               then (BreakCleared, s1\<lparr>reqBuffer := []\<rparr>)
               else handle_loop H s1 (advance reqBufferView reqIgnoreLength)
             else if err = PartialData then
               (BreakPartial,
                emit (Log WARNING (Text ''partial data in request: %1.3fKb''))
                  (s1\<lparr>reqBuffer :=
                        drop ((sv_data reqBufferView + reqIgnoreLength) mod 2 ^ 64) (reqBuffer s1)\<rparr>))
             else (ReturnError err, s1))"
  by pat_completeness auto
termination
  by (relation "measure (\<lambda>(H, s, v). sv_size v)") (auto simp: advance_def)

lemmas [simp del] = handle_loop.simps

subsection \<open>The session coroutine\<close>

text \<open>
  The two \<^verbatim>\<open>yield\<close> statements of \<^verbatim>\<open>Session::operator()\<close>: each records the
  resumption point, starts the asynchronous operation and leaves the body.
\<close>

definition async_read :: "'h session \<Rightarrow> 'h session" where
  "async_read s = emit AsyncRead (s\<lparr>coro := Yield1, pending := Some PendingRead\<rparr>)"

definition async_write :: "'h session \<Rightarrow> 'h session" where
  "async_write s =
     emit (AsyncWrite (resBuffer s)) (s\<lparr>coro := Yield2, pending := Some PendingWrite\<rparr>)"

lemma handle_loop_ReturnError_failed:
  "handle_loop H s v = (ReturnError e, s') \<Longrightarrow> failed e"
proof (induction H s v rule: handle_loop.induct)
  case (1 H s v)
  show ?case
  proof (cases "handle H (reqHandler s) (view_contents (reqBuffer s) v)")
    case (Pair r h')
    obtain err out n where r: "r = (err, out, n)" by (cases r) auto
    show ?thesis
      using "1.prems" "1.IH"[OF Pair[symmetric, unfolded r] refl refl refl]
      by (subst (asm) handle_loop.simps)
         (auto simp: Pair r Let_def split: if_splits)
  qed
qed

text \<open>
  \<^verbatim>\<open>Session::operator()\<close>. Leaving the \<^verbatim>\<open>reenter\<close> block through the \<^verbatim>\<open>return\<close> of the
  unexpected error branch, without a \<^verbatim>\<open>yield\<close>, marks the coroutine complete, and a
  complete coroutine does not run its body again.
\<close>

function session_operator ::
  "'h request_handler \<Rightarrow> 'h session \<Rightarrow> error_code \<Rightarrow> nat \<Rightarrow> 'h session" where
  "session_operator H s err transfered =
     (if failed err then
        let s1 = (if err = Eof then emit (Log DEBUG (Text ''client close connection'')) s
                  else if err = OperationAborted then emit (Log DEBUG (Text ''session canceled'')) s
                  else emit (Log ERROR (Message err)) s);
            s2 = atClose H s1
        in emit (Log DEBUG (Text ''end of session coroutine'')) s2
      else
        (case coro s of
           Initial \<Rightarrow> async_read s
         | Yield1 \<Rightarrow>
             (let s1 = emit (Log DEBUG (Text ''readed: %1.3fKb'')) s
              in case handle_loop H s1 (view_of (reqBuffer s1)) of
                   (ReturnError e, s2) \<Rightarrow> (session_operator H s2 e 0)\<lparr>coro := Complete\<rparr>
                 | (BreakCleared, s2) \<Rightarrow>
                     if resBuffer s2 = [] then async_read s2 else async_write s2
                 | (BreakPartial, s2) \<Rightarrow>
                     if resBuffer s2 = [] then async_read s2 else async_write s2)
         | Yield2 \<Rightarrow>
             (let s1 = emit (Log DEBUG (Text ''writed: %1.3fKb'')) s;
                  s2 = s1\<lparr>resBuffer := []\<rparr>
              in async_read s2)
         | Complete \<Rightarrow> s))"
  by pat_completeness auto
termination
  by (relation "measure (\<lambda>(H, s, err, n). if failed err then 0 else 1)")
     (auto dest: handle_loop_ReturnError_failed[OF sym])

lemmas [simp del] = session_operator.simps

text \<open>
  \<^verbatim>\<open>Session::start\<close>. \<^verbatim>\<open>socket_.remote_endpoint()\<close> throws when the peer is gone; the
  exception leaves \<open>start\<close> and is returned beside the session.
\<close>

definition start :: "'h request_handler \<Rightarrow> 'h session \<Rightarrow> exception option \<times> 'h session" where
  "start H s =
     (let s1 = emit (Log TRACE (Text ''start new session'')) s
      in case remote_endpoint (socket s1) of
           Inl e \<Rightarrow> (Some e, s1)
         | Inr remoteEndpoint \<Rightarrow>
             (case atSessionStart H (reqHandler s1) remoteEndpoint of
                (err, h') \<Rightarrow>
                  let s2 = emit (AtSessionStart remoteEndpoint) (s1\<lparr>reqHandler := h'\<rparr>)
                  in if failed err then
                       (None,
                        emit (Log WARNING (Text ''session doesn't start, because get handler error''))
                          (emit (Log ERROR (Message err)) s2))
                     else (None, session_operator H s2 Success 0)))"

subsection \<open>What happens to a session\<close>

text \<open>
  The completion of the pending \<^verbatim>\<open>async_read\<close> (the bytes read were appended to the
  dynamic buffer over \<^verbatim>\<open>reqBuffer_\<close>), the completion of the pending \<^verbatim>\<open>async_write\<close>
  (the bytes written were consumed from the dynamic buffer over \<^verbatim>\<open>resBuffer_\<close>), and
  a call of \<^verbatim>\<open>close()\<close> by the server. A completion arrives only for an operation that is
  pending.
\<close>

datatype stimulus =
    ReadComplete error_code string
  | WriteComplete error_code nat
  | CloseCall

fun deliver :: "'h request_handler \<Rightarrow> 'h session \<Rightarrow> stimulus \<Rightarrow> 'h session" where
  "deliver H s (ReadComplete err bytes) =
     (if pending s = Some PendingRead
      then session_operator H (s\<lparr>reqBuffer := reqBuffer s @ bytes, pending := None\<rparr>)
             err (length bytes)
      else s)"
| "deliver H s (WriteComplete err n) =
     (if pending s = Some PendingWrite
      then session_operator H (s\<lparr>resBuffer := drop n (resBuffer s), pending := None\<rparr>) err n
      else s)"
| "deliver H s CloseCall = close s"

definition run :: "'h request_handler \<Rightarrow> 'h session \<Rightarrow> stimulus list \<Rightarrow> 'h session" where
  "run H s xs = foldl (deliver H) s xs"

text \<open>The bytes handed to \<^verbatim>\<open>async_write\<close>, in order: what the peer can observe.\<close>

fun written :: "action list \<Rightarrow> string" where
  "written [] = []"
| "written (AsyncWrite bytes # as) = bytes @ written as"
| "written (a # as) = written as"

section \<open>The server\<close>

text \<open>
  Modelled from the spec: \<^verbatim>\<open>AbstractRequestHandlerFactory\<close> is declared in the missing
  header. \<^verbatim>\<open>makeRequestHandler()\<close> gives the state of a new handler, or throws.
\<close>

type_synonym 'h request_handler_factory = "unit \<Rightarrow> exception + 'h"

text \<open>The endpoint the acceptor listens on; a TCP port is an \<^verbatim>\<open>unsigned short\<close>.\<close>

datatype 'a endpoint = TcpEndpoint 'a "16 word" | UnixEndpoint string

datatype accept_coroutine = AcceptInitial | AcceptYield | AcceptFinished

text \<open>
  \<^verbatim>\<open>ServerImplStream\<close>. The sessions are shared objects: \<open>store\<close> holds every session
  object made so far, a \<^verbatim>\<open>SessionPtr\<close> is an index into it, and \<open>sessions\<close> is the
  \<^verbatim>\<open>std::list<SessionPtr> sessions_\<close>. A pointer of the list always refers to an object of
  the store.
\<close>

record ('a, 'h) server =
  listen_endpoint :: "'a endpoint"
  reqHandlerFactory :: "'h request_handler_factory"
  srv_coro :: accept_coroutine
  accept_pending :: bool
  sessions :: "nat list"
  store :: "'h session list"
  srv_events :: "action list"

definition new_server ::
  "'a endpoint \<Rightarrow> 'h request_handler_factory \<Rightarrow> ('a, 'h) server" where
  "new_server ep factory =
     \<lparr>listen_endpoint = ep, reqHandlerFactory = factory, srv_coro = AcceptInitial,
      accept_pending = False, sessions = [], store = [],
      srv_events = [Log TRACE (Text ''construct sever'')]\<rparr>"

definition srv_emit :: "action \<Rightarrow> ('a, 'h) server \<Rightarrow> ('a, 'h) server" where
  "srv_emit a srv = srv\<lparr>srv_events := srv_events srv @ [a]\<rparr>"

definition async_accept :: "('a, 'h) server \<Rightarrow> ('a, 'h) server" where
  "async_accept srv = srv_emit AsyncAccept (srv\<lparr>srv_coro := AcceptYield, accept_pending := True\<rparr>)"

text \<open>
  The body of the \<^verbatim>\<open>try\<close> block of \<^verbatim>\<open>ServerImplStream::operator()\<close>: the exception that
  leaves it, if any, and the server as the body left it.
\<close>

definition accept_body ::
  "'h request_handler \<Rightarrow> ('a, 'h) server \<Rightarrow> socket \<Rightarrow> exception option \<times> ('a, 'h) server" where
  "accept_body H srv sock =
     (case remote_endpoint sock of
        Inl e \<Rightarrow> (Some e, srv)
      | Inr peer \<Rightarrow>
         (let srv1 = srv_emit (Log DEBUG (Text ''accept connection from: %1%'')) srv;
              srv2 = srv1\<lparr>sessions :=
                       filter (\<lambda>session. \<not> (isOpen (store srv1 ! session) = False)) (sessions srv1)\<rparr>;
              srv3 = srv_emit MakeRequestHandler srv2
          in (case reqHandlerFactory srv3 () of
               Inl e \<Rightarrow> (Some e, srv3)
             | Inr handler \<Rightarrow>
                 (case start H (new_session sock handler) of
                    (Some e, session) \<Rightarrow> (Some e, srv3\<lparr>store := store srv3 @ [session]\<rparr>)
                  | (None, session) \<Rightarrow>
                      (None,
                       srv_emit (Log DEBUG (Text ''sessions opened: %1%''))
                         (srv3\<lparr>store := store srv3 @ [session],
                               sessions := sessions srv3 @ [length (store srv3)]\<rparr>))))))"

text \<open>\<^verbatim>\<open>ServerImplStream::operator()\<close>.\<close>

definition server_operator ::
  "'h request_handler \<Rightarrow> ('a, 'h) server \<Rightarrow> error_code \<Rightarrow> socket \<Rightarrow> ('a, 'h) server" where
  "server_operator H srv err sock =
     (if failed err then
        let srv1 = (if err = OperationAborted
                    then srv_emit (Log DEBUG (Text ''accepting canceled'')) srv
                    else srv_emit (Log ERROR (Message err)) srv)
        in srv_emit (Log DEBUG (Text ''break the server coroutine'')) srv1
      else
        (case srv_coro srv of
           AcceptInitial \<Rightarrow> async_accept srv
         | AcceptYield \<Rightarrow>
             (let srv1 = srv_emit (Log DEBUG (Text ''accept new connection'')) srv
              in case accept_body H srv1 sock of
                   (Some e, srv2) \<Rightarrow> async_accept (srv_emit (Log ERROR (What e)) srv2)
                 | (None, srv2) \<Rightarrow> async_accept srv2)
         | AcceptFinished \<Rightarrow> srv))"

text \<open>\<^verbatim>\<open>startAccepting\<close> enters the coroutine with a socket that is not connected.\<close>

definition unconnected_socket :: socket where
  "unconnected_socket =
     \<lparr>is_open = False, remote_endpoint = Inl (SystemError (OtherError 107)),
      cancel_result = Success, shutdown_result = Success, close_result = Success\<rparr>"

definition startAccepting :: "'h request_handler \<Rightarrow> ('a, 'h) server \<Rightarrow> ('a, 'h) server" where
  "startAccepting H srv =
     server_operator H (srv_emit (Log TRACE (Text ''start accepting'')) srv)
       Success unconnected_socket"

text \<open>
  What happens to a server: the pending \<^verbatim>\<open>async_accept\<close> completes, with an error or
  with the socket of the new connection, or something happens to one of the sessions.
\<close>

datatype server_stimulus =
    AcceptComplete error_code socket
  | SessionStimulus nat stimulus

fun srv_deliver ::
  "'h request_handler \<Rightarrow> ('a, 'h) server \<Rightarrow> server_stimulus \<Rightarrow> ('a, 'h) server" where
  "srv_deliver H srv (AcceptComplete err sock) =
     (if accept_pending srv
      then server_operator H (srv\<lparr>accept_pending := False\<rparr>) err sock
      else srv)"
| "srv_deliver H srv (SessionStimulus session x) =
     (if session < length (store srv)
      then srv\<lparr>store := (store srv)[session := deliver H (store srv ! session) x]\<rparr>
      else srv)"

definition srv_run ::
  "'h request_handler \<Rightarrow> ('a, 'h) server \<Rightarrow> server_stimulus list \<Rightarrow> ('a, 'h) server" where
  "srv_run H srv xs = foldl (srv_deliver H) srv xs"

section \<open>The builder\<close>

datatype protocol = Tcp | Unix

record 'h server_builder =
  b_protocol :: protocol
  b_endpoint :: string
  b_reqHandlerFactory :: "'h request_handler_factory option"

definition is_digit :: "char \<Rightarrow> bool" where
  "is_digit c = ((of_char (CHR ''0'') :: nat) \<le> of_char c \<and> (of_char c :: nat) \<le> of_char (CHR ''9''))"

text \<open>
  \<^verbatim>\<open>std::regex_match\<close> of the whole endpoint string against
  \<^verbatim>\<open>([^:]+):(\d{1,5})\<close>: the host is what precedes the first colon and is not empty, the
  port is everything after that colon, one to five digits. The two groups are returned.
\<close>

definition hostAndPortReg :: "string \<Rightarrow> (string \<times> string) option" where
  "hostAndPortReg s =
     (let host = takeWhile (\<lambda>c. c \<noteq> CHR '':'') s;
          rest = dropWhile (\<lambda>c. c \<noteq> CHR '':'') s
      in case rest of
           [] \<Rightarrow> None
         | colon # port \<Rightarrow>
             if host \<noteq> [] \<and> 1 \<le> length port \<and> length port \<le> 5 \<and> list_all is_digit port
             then Some (host, port)
             else None)"

text \<open>\<^verbatim>\<open>std::stoi\<close> on a string of digits.\<close>

definition digit_value :: "char \<Rightarrow> nat" where
  "digit_value c = of_char c - of_char (CHR ''0'')"

definition stoi :: "string \<Rightarrow> nat" where
  "stoi port = foldl (\<lambda>acc c. 10 * acc + digit_value c) 0 port"

text \<open>
  \<^verbatim>\<open>ServerBuilder::build\<close>. \<^verbatim>\<open>asio::ip::make_address\<close> and the constructor of
  \<^verbatim>\<open>ServerImplStream\<close> (open, bind and listen of the acceptor, which throw a system error
  when the operating system refuses) are parameters. The port computed by \<^verbatim>\<open>std::stoi\<close>
  is an \<^verbatim>\<open>int\<close>, converted to the \<^verbatim>\<open>unsigned short\<close> the endpoint takes.
\<close>

definition build ::
  "(string \<Rightarrow> 'a option) \<Rightarrow> ('a endpoint \<Rightarrow> exception option) \<Rightarrow> 'h server_builder
     \<Rightarrow> exception + ('a, 'h) server" where
  "build make_address listen b =
     (case b_reqHandlerFactory b of
        None \<Rightarrow> Inl (InvalidArgument ''invalid request handler factory'')
      | Some factory \<Rightarrow>
          (case b_protocol b of
             Tcp \<Rightarrow>
               (case hostAndPortReg (b_endpoint b) of
                  None \<Rightarrow> Inl (InvalidArgument ''invalid host or port'')
                | Some (host, port) \<Rightarrow>
                    (case make_address host of
                       None \<Rightarrow> Inl (InvalidArgument ''invalid address: %1%'')
                     | Some addr \<Rightarrow>
                        (let endpoint = TcpEndpoint addr (of_nat (stoi port))
                         in (case listen endpoint of
                               Some e \<Rightarrow> Inl e
                             | None \<Rightarrow> Inr (new_server endpoint factory)))))
           | Unix \<Rightarrow>
               (let endpoint = UnixEndpoint (b_endpoint b)
                in (case listen endpoint of
                      Some e \<Rightarrow> Inl e
                    | None \<Rightarrow> Inr (new_server endpoint factory)))))"

section \<open>Sample objects\<close>

text \<open>A connected socket whose operations all succeed, and an echo session started on it.\<close>

definition sample_socket :: socket where
  "sample_socket =
     \<lparr>is_open = True, remote_endpoint = Inr ''127.0.0.1:40000'',
      cancel_result = Success, shutdown_result = Success, close_result = Success\<rparr>"

definition echo_session :: "unit session" where
  "echo_session = snd (start EchoReqHandler (new_session sample_socket ()))"

text \<open>The echo handler, except that it refuses every session at \<open>atSessionStart\<close>.\<close>

definition refusing_handler :: "unit request_handler" where
  "refusing_handler = EchoReqHandler\<lparr>atSessionStart := (\<lambda>h remoteEndpoint. (OtherError 1, h))\<rparr>"

text \<open>
  A handler with a state, the number of its calls, that echoes lines as the echo handler
  does but on partial data sets the consumed length to the largest \<^verbatim>\<open>size_t\<close>.
\<close>

definition overclaiming_handler :: "nat request_handler" where
  "overclaiming_handler =
     \<lparr>atSessionStart = (\<lambda>h remoteEndpoint. (Success, h)),
      handle = (\<lambda>h request.
         case lineReg_first request of
           None \<Rightarrow> ((PartialData, [], 2 ^ 64 - 1), Suc h)
         | Some echo \<Rightarrow> ((Success, echo, length echo), Suc h)),
      atSessionClose = (\<lambda>h. h)\<rparr>"

text \<open>
  A handler that echoes lines as the echo handler does, and reports an error of its own
  on a request that starts with an exclamation mark; a session of it that has just read
  a line followed by such a request.
\<close>

definition strict_handle :: "unit \<Rightarrow> string \<Rightarrow> (error_code \<times> string \<times> nat) \<times> unit" where
  "strict_handle h request =
     (case request of
        [] \<Rightarrow> echo_handle h request
      | c # cs \<Rightarrow> if c = CHR ''!'' then ((OtherError 22, [], 0), h) else echo_handle h request)"

definition strict_handler :: "unit request_handler" where
  "strict_handler = EchoReqHandler\<lparr>handle := strict_handle\<rparr>"

definition strict_session :: "unit session" where
  "strict_session =
     (snd (start strict_handler (new_session sample_socket ())))
       \<lparr>reqBuffer := ''a\<newline>!b'', pending := None\<rparr>"

text \<open>
  \<^verbatim>\<open>EchoReqHandlerFactory\<close> of \<^verbatim>\<open>test/main.cpp\<close>, a server of echo sessions that has
  started accepting, and the socket of a connection whose peer is already gone.
\<close>

definition EchoReqHandlerFactory :: "unit request_handler_factory" where
  "EchoReqHandlerFactory = (\<lambda>u. Inr ())"

definition sample_server :: "(unit, unit) server" where
  "sample_server =
     startAccepting EchoReqHandler (new_server (UnixEndpoint ''/tmp/echo.sock'') EchoReqHandlerFactory)"

definition vanished_socket :: socket where
  "vanished_socket = sample_socket\<lparr>remote_endpoint := Inl (SystemError (OtherError 107))\<rparr>"

text \<open>
  For the builder: an address parser that knows the loopback address only, an operating
  system that lets the acceptor listen on every endpoint, and a TCP builder with the echo
  factory.
\<close>

definition loopback_only :: "string \<Rightarrow> (nat \<times> nat \<times> nat \<times> nat) option" where
  "loopback_only host = (if host = ''127.0.0.1'' then Some (127, 0, 0, 1) else None)"

definition listen_ok :: "'a endpoint \<Rightarrow> exception option" where
  "listen_ok ep = None"

definition sample_builder :: "string \<Rightarrow> unit server_builder" where
  "sample_builder ep =
     \<lparr>b_protocol = Tcp, b_endpoint = ep, b_reqHandlerFactory = Some EchoReqHandlerFactory\<rparr>"

text \<open>
  The endpoint strings whose port, what follows the first colon, is a number of five
  digits above 65535: it does not fit the \<^verbatim>\<open>unsigned short\<close> of the endpoint.
\<close>

definition port_above_16_bits :: "string \<Rightarrow> bool" where
  "port_above_16_bits e =
     (let port = drop 1 (dropWhile (\<lambda>c. c \<noteq> CHR '':'') e)
      in length port = 5 \<and> list_all is_digit port \<and> 65535 < stoi port)"

section \<open>Lines of a byte stream\<close>

text \<open>
  What the spec asks of a line-consuming handler, said on the bytes alone: of all the
  bytes received so far, the lines that are complete (everything up to and including
  the last line feed) are answered, and the unfinished line after them waits for more.
\<close>

definition complete_lines :: "string \<Rightarrow> string" where
  "complete_lines w = rev (dropWhile (\<lambda>c. c \<noteq> CHR 0x0A) (rev w))"

definition incomplete_line :: "string \<Rightarrow> string" where
  "incomplete_line w = rev (takeWhile (\<lambda>c. c \<noteq> CHR 0x0A) (rev w))"

section \<open>Reading the list of actions\<close>

text \<open>
  The actions that mark the life of a session (the two notifications of the handler,
  shutdown and close of the socket), the asynchronous operations, and the actions that
  leave the socket alone.
\<close>

definition is_lifecycle :: "action \<Rightarrow> bool" where
  "is_lifecycle a =
     (case a of AtSessionStart remoteEndpoint \<Rightarrow> True | AtSessionClose \<Rightarrow> True
      | SocketShutdown \<Rightarrow> True | SocketClose \<Rightarrow> True | _ \<Rightarrow> False)"

definition is_io :: "action \<Rightarrow> bool" where
  "is_io a = (case a of AsyncRead \<Rightarrow> True | AsyncWrite bytes \<Rightarrow> True | _ \<Rightarrow> False)"

definition is_internal :: "action \<Rightarrow> bool" where
  "is_internal a =
     (case a of Log level text \<Rightarrow> True | HandleCall request err out n \<Rightarrow> True | _ \<Rightarrow> False)"

definition is_accept :: "action \<Rightarrow> bool" where
  "is_accept a = (case a of AsyncAccept \<Rightarrow> True | _ \<Rightarrow> False)"

text \<open>
  Three states of a session in terms of its actions: started and between two operations
  (\<open>alive\<close>), closed by \<open>atClose\<close> (\<open>ended\<close>), and refused by the handler at the start
  (\<open>idle\<close>).
\<close>

definition alive :: "string \<Rightarrow> 'h session \<Rightarrow> bool" where
  "alive addr s \<longleftrightarrow> pending s \<noteq> None \<and> coro s \<noteq> Complete \<and> is_open (socket s) \<and>
     filter is_lifecycle (events s) = [AtSessionStart addr]"

definition ended :: "string \<Rightarrow> 'h session \<Rightarrow> bool" where
  "ended addr s \<longleftrightarrow> pending s = None \<and> \<not> is_open (socket s) \<and>
     filter is_lifecycle (events s) = [AtSessionStart addr, AtSessionClose, SocketShutdown, SocketClose]"

definition idle :: "string \<Rightarrow> 'h session \<Rightarrow> bool" where
  "idle addr s \<longleftrightarrow> pending s = None \<and> is_open (socket s) \<and> filter is_io (events s) = [] \<and>
     filter is_lifecycle (events s) = [AtSessionStart addr]"

text \<open>The bytes the handler calls of a list of actions pushed to the response, in call order.\<close>

fun responses :: "action list \<Rightarrow> string" where
  "responses [] = []"
| "responses (HandleCall request err out n # as) = out @ responses as"
| "responses (a # as) = responses as"

section \<open>Properties of the request handling loop\<close>

lemma view_contents_advance:
  "view_contents buf (advance v n) = drop n (view_contents buf v)"
  by (simp add: view_contents_def advance_def drop_take add.commute)

text \<open>One turn of the loop, for a known answer of the handler.\<close>

lemma handle_loop_step:
  assumes "handle H (reqHandler s) (view_contents (reqBuffer s) v) = ((err, out, n), h')"
  shows "handle_loop H s v =
     (let s1 = emit (HandleCall (view_contents (reqBuffer s) v) err out n)
                 (s\<lparr>reqHandler := h', resBuffer := resBuffer s @ out\<rparr>)
      in if failed err = False then
           if n = 0 \<or> n \<ge> sv_size v
           then (BreakCleared, s1\<lparr>reqBuffer := []\<rparr>)
           else handle_loop H s1 (advance v n)
         else if err = PartialData then
           (BreakPartial,
            emit (Log WARNING (Text ''partial data in request: %1.3fKb''))
              (s1\<lparr>reqBuffer := drop ((sv_data v + n) mod 2 ^ 64) (reqBuffer s1)\<rparr>))
         else (ReturnError err, s1))"
  by (subst handle_loop.simps) (simp add: assms)

lemma handle_loop_responses:
  "handle_loop H s v = (x, s') \<Longrightarrow>
     \<exists>es. events s' = events s @ es \<and> resBuffer s' = resBuffer s @ responses es"
proof (induction H s v arbitrary: x s' rule: handle_loop.induct)
  case (1 H s v)
  obtain err out n h' where
    hd: "handle H (reqHandler s) (view_contents (reqBuffer s) v) = ((err, out, n), h')"
    by (metis prod.exhaust)
  note IH = "1.IH"[OF hd[symmetric] refl refl refl]
  show ?case
  proof (cases "failed err = False \<and> \<not> (n = 0 \<or> n \<ge> sv_size v)")
    case True
    then have "handle_loop H (emit (HandleCall (view_contents (reqBuffer s) v) err out n)
                 (s\<lparr>reqHandler := h', resBuffer := resBuffer s @ out\<rparr>)) (advance v n) = (x, s')"
      using "1.prems" by (simp add: handle_loop_step[OF hd] Let_def)
    from IH[OF _ _ this] True obtain es where
      "events s' = (events s @ [HandleCall (view_contents (reqBuffer s) v) err out n]) @ es"
      "resBuffer s' = (resBuffer s @ out) @ responses es"
      by (auto simp: emit_def)
    then show ?thesis
      by (intro exI[of _ "HandleCall (view_contents (reqBuffer s) v) err out n # es"]) simp
  next
    case False
    then show ?thesis using "1.prems"
      by (auto simp: handle_loop_step[OF hd] Let_def emit_def split: if_splits)
  qed
qed

text \<open>What a pass that ends on partial data leaves in the inbound buffer.\<close>

lemma handle_loop_partial_tail:
  "handle_loop H s v = (BreakPartial, s') \<Longrightarrow> sv_data v + sv_size v = length (reqBuffer s) \<Longrightarrow>
     \<exists>w out n es.
        events s' = events s @ es @
           [HandleCall w PartialData out n, Log WARNING (Text ''partial data in request: %1.3fKb'')]
      \<and> w = drop (length (reqBuffer s) - length w) (reqBuffer s)
      \<and> reqBuffer s' =
          drop ((length (reqBuffer s) - length w + n) mod 2 ^ 64) (reqBuffer s)"
proof (induction H s v arbitrary: s' rule: handle_loop.induct)
  case (1 H s v)
  obtain err out n h' where
    hd: "handle H (reqHandler s) (view_contents (reqBuffer s) v) = ((err, out, n), h')"
    by (metis prod.exhaust)
  note IH = "1.IH"[OF hd[symmetric] refl refl refl]
  let ?w = "view_contents (reqBuffer s) v"
  let ?s1 = "emit (HandleCall ?w err out n) (s\<lparr>reqHandler := h', resBuffer := resBuffer s @ out\<rparr>)"
  have w: "?w = drop (sv_data v) (reqBuffer s)" "length ?w = sv_size v"
    using "1.prems"(2) by (simp_all add: view_contents_def)
  show ?case
  proof (cases "failed err = False \<and> \<not> (n = 0 \<or> n \<ge> sv_size v)")
    case True
    then have r: "handle_loop H ?s1 (advance v n) = (BreakPartial, s')"
      using "1.prems" by (simp add: handle_loop_step[OF hd] Let_def)
    have wf: "sv_data (advance v n) + sv_size (advance v n) = length (reqBuffer ?s1)"
      using True "1.prems"(2) by (simp add: advance_def emit_def)
    from IH[OF _ _ r wf] True obtain w' out' n' es where
      "events s' = events ?s1 @ es @
           [HandleCall w' PartialData out' n', Log WARNING (Text ''partial data in request: %1.3fKb'')]"
      "w' = drop (length (reqBuffer ?s1) - length w') (reqBuffer ?s1)"
      "reqBuffer s' =
         drop ((length (reqBuffer ?s1) - length w' + n') mod 2 ^ 64) (reqBuffer ?s1)"
      by auto
    then show ?thesis
      apply -
      apply (rule exI[of _ w'], rule exI[of _ out'], rule exI[of _ n'],
             rule exI[of _ "HandleCall ?w err out n # es"])
      apply (simp add: emit_def)
      done
  next
    case False
    then have "err = PartialData" and
      s': "s' = emit (Log WARNING (Text ''partial data in request: %1.3fKb''))
             (?s1\<lparr>reqBuffer := drop ((sv_data v + n) mod 2 ^ 64) (reqBuffer ?s1)\<rparr>)"
      using "1.prems"(1) by (auto simp: handle_loop_step[OF hd] Let_def split: if_splits)
    moreover have "length (reqBuffer s) - sv_size v = sv_data v"
      using "1.prems"(2) by arith
    ultimately show ?thesis using w
      apply -
      apply (rule exI[of _ ?w], rule exI[of _ out], rule exI[of _ n], rule exI[of _ "[]"])
      apply (simp add: emit_def)
      done
  qed
qed

section \<open>Properties of the session coroutine\<close>

lemma is_internal_simps:
  "is_internal (Log level text)" "is_internal (HandleCall request err out n)"
  by (simp_all add: is_internal_def)

lemma internal_not_lifecycle: "is_internal a \<Longrightarrow> \<not> is_lifecycle a"
  by (cases a) (simp_all add: is_internal_def is_lifecycle_def)

lemma internal_not_io: "is_internal a \<Longrightarrow> \<not> is_io a"
  by (cases a) (simp_all add: is_internal_def is_io_def)

lemma filter_lifecycle_internal: "list_all is_internal es \<Longrightarrow> filter is_lifecycle es = []"
  by (induction es) (auto dest: internal_not_lifecycle)

lemma filter_io_internal: "list_all is_internal es \<Longrightarrow> filter is_io es = []"
  by (induction es) (auto dest: internal_not_io)

lemma written_append: "written (xs @ ys) = written xs @ written ys"
  by (induction xs rule: written.induct) auto

lemma written_internal: "list_all is_internal es \<Longrightarrow> written es = []"
  by (induction es rule: written.induct) (auto simp: is_internal_def)

lemma handle_loop_frame:
  "handle_loop H s v = (x, s') \<Longrightarrow>
     socket s' = socket s \<and> coro s' = coro s \<and> pending s' = pending s \<and>
     (\<exists>es. events s' = events s @ es \<and> list_all is_internal es)"
proof (induction H s v arbitrary: x s' rule: handle_loop.induct)
  case (1 H s v)
  obtain err out n h' where
    hd: "handle H (reqHandler s) (view_contents (reqBuffer s) v) = ((err, out, n), h')"
    by (metis prod.exhaust)
  note IH = "1.IH"[OF hd[symmetric] refl refl refl]
  show ?case
  proof (cases "failed err = False \<and> \<not> (n = 0 \<or> n \<ge> sv_size v)")
    case True
    then have "handle_loop H (emit (HandleCall (view_contents (reqBuffer s) v) err out n)
                 (s\<lparr>reqHandler := h', resBuffer := resBuffer s @ out\<rparr>)) (advance v n) = (x, s')"
      using "1.prems" by (simp add: handle_loop_step[OF hd] Let_def)
    from IH[OF _ _ this] True obtain es where
      "events s' = (events s @ [HandleCall (view_contents (reqBuffer s) v) err out n]) @ es"
      "list_all is_internal es" "socket s' = socket s" "coro s' = coro s" "pending s' = pending s"
      by (auto simp: emit_def)
    then show ?thesis
      by (auto intro!: exI[of _ "HandleCall (view_contents (reqBuffer s) v) err out n # es"]
               simp: is_internal_simps)
  next
    case False
    then show ?thesis using "1.prems"
      by (auto simp: handle_loop_step[OF hd] Let_def emit_def is_internal_simps split: if_splits)
  qed
qed

text \<open>The error branch of the session operator\<close>

lemma session_operator_failed:
  "failed err \<Longrightarrow>
   session_operator H s err n =
     emit (Log DEBUG (Text ''end of session coroutine''))
       (atClose H
          (emit (if err = Eof then Log DEBUG (Text ''client close connection'')
                 else if err = OperationAborted then Log DEBUG (Text ''session canceled'')
                 else Log ERROR (Message err)) s))"
  by (subst session_operator.simps) (simp add: Let_def)

lemma atClose_lifecycle:
  "filter is_lifecycle (events (atClose H s)) =
     filter is_lifecycle (events s) @ [AtSessionClose, SocketShutdown, SocketClose]"
  "pending (atClose H s) = pending s"
  "is_open (socket (atClose H s)) = False"
  "filter is_io (events (atClose H s)) = filter is_io (events s)"
  "written (events (atClose H s)) = written (events s)"
  by (simp_all add: atClose_def Let_def emit_def is_lifecycle_def is_io_def written_append)

lemma session_operator_success:
  "\<not> failed err \<Longrightarrow>
   session_operator H s err n =
     (case coro s of
           Initial \<Rightarrow> async_read s
         | Yield1 \<Rightarrow>
             (let s1 = emit (Log DEBUG (Text ''readed: %1.3fKb'')) s
              in case handle_loop H s1 (view_of (reqBuffer s1)) of
                   (ReturnError e, s2) \<Rightarrow> (session_operator H s2 e 0)\<lparr>coro := Complete\<rparr>
                 | (BreakCleared, s2) \<Rightarrow>
                     if resBuffer s2 = [] then async_read s2 else async_write s2
                 | (BreakPartial, s2) \<Rightarrow>
                     if resBuffer s2 = [] then async_read s2 else async_write s2)
         | Yield2 \<Rightarrow>
             (let s1 = emit (Log DEBUG (Text ''writed: %1.3fKb'')) s;
                  s2 = s1\<lparr>resBuffer := []\<rparr>
              in async_read s2)
         | Complete \<Rightarrow> s)"
  by (subst session_operator.simps) simp

lemma ended_after_failure:
  assumes "filter is_lifecycle (events s) = [AtSessionStart addr]" "pending s = None" "failed err"
  shows "ended addr (session_operator H s err n)"
  using assms
  by (simp add: session_operator_failed ended_def emit_def atClose_lifecycle is_lifecycle_def)

lemma alive_async:
  assumes "filter is_lifecycle (events s) = [AtSessionStart addr]" "is_open (socket s)"
  shows "alive addr (async_read s)" "alive addr (async_write s)"
  using assms
  by (simp_all add: alive_def async_read_def async_write_def emit_def is_lifecycle_def)

lemma session_operator_lifecycle:
  assumes L: "filter is_lifecycle (events s) = [AtSessionStart addr]"
    and c: "coro s \<noteq> Complete" and o: "is_open (socket s)" and p: "pending s = None"
  shows "alive addr (session_operator H s err n) \<or> ended addr (session_operator H s err n)"
proof (cases "failed err")
  case True
  then show ?thesis using ended_after_failure[OF L p] by simp
next
  case False
  note eq = session_operator_success[OF False, of H s n]
  show ?thesis
  proof (cases "coro s")
    case Initial
    then show ?thesis using alive_async(1)[OF L o] by (simp add: eq)
  next
    case Yield1
    let ?s1 = "emit (Log DEBUG (Text ''readed: %1.3fKb'')) s"
    obtain x s2 where r: "handle_loop H ?s1 (view_of (reqBuffer ?s1)) = (x, s2)"
      by (cases "handle_loop H ?s1 (view_of (reqBuffer ?s1))")
    from handle_loop_frame[OF r] obtain es where
      f: "socket s2 = socket s" "pending s2 = pending s"
         "events s2 = events ?s1 @ es" "list_all is_internal es"
      by (auto simp: emit_def)
    have L2: "filter is_lifecycle (events s2) = [AtSessionStart addr]"
      using f L by (simp add: emit_def filter_lifecycle_internal is_lifecycle_def)
    have o2: "is_open (socket s2)" using f o by simp
    have p2: "pending s2 = None" using f p by simp
    show ?thesis
    proof (cases x)
      case BreakCleared
      then show ?thesis using alive_async[OF L2 o2] by (simp add: eq Yield1 r Let_def)
    next
      case BreakPartial
      then show ?thesis using alive_async[OF L2 o2] by (simp add: eq Yield1 r Let_def)
    next
      case (ReturnError e)
      then have "failed e" using handle_loop_ReturnError_failed r by blast
      from ended_after_failure[OF L2 p2 this, of H 0] show ?thesis
        by (simp add: eq Yield1 r Let_def ReturnError ended_def)
    qed
  next
    case Yield2
    then show ?thesis
      using alive_async(1)[of "(emit (Log DEBUG (Text ''writed: %1.3fKb'')) s)\<lparr>resBuffer := []\<rparr>" addr] L o
      by (simp add: eq Let_def emit_def is_lifecycle_def)
  next
    case Complete
    then show ?thesis using c by simp
  qed
qed

lemma close_frame:
  "pending (close s) = pending s" "coro (close s) = coro s" "socket (close s) = socket s"
  "filter is_lifecycle (events (close s)) = filter is_lifecycle (events s)"
  "filter is_io (events (close s)) = filter is_io (events s)"
  "written (events (close s)) = written (events s)"
  by (simp_all add: close_def emit_def Let_def is_lifecycle_def is_io_def written_append)

lemma deliver_alive_or_ended:
  assumes "alive addr s \<or> ended addr s"
  shows "alive addr (deliver H s x) \<or> ended addr (deliver H s x)"
proof (cases x)
  case (ReadComplete err bytes)
  show ?thesis
  proof (cases "pending s = Some PendingRead")
    case True
    then have a: "alive addr s" using assms by (auto simp: ended_def)
    let ?s = "s\<lparr>reqBuffer := reqBuffer s @ bytes, pending := None\<rparr>"
    have "alive addr (session_operator H ?s err (length bytes))
          \<or> ended addr (session_operator H ?s err (length bytes))"
      using a by (intro session_operator_lifecycle) (simp_all add: alive_def)
    then show ?thesis using True by (simp add: ReadComplete)
  next
    case False
    then show ?thesis using assms by (simp add: ReadComplete)
  qed
next
  case (WriteComplete err n)
  show ?thesis
  proof (cases "pending s = Some PendingWrite")
    case True
    then have a: "alive addr s" using assms by (auto simp: ended_def)
    let ?s = "s\<lparr>resBuffer := drop n (resBuffer s), pending := None\<rparr>"
    have "alive addr (session_operator H ?s err n) \<or> ended addr (session_operator H ?s err n)"
      using a by (intro session_operator_lifecycle) (simp_all add: alive_def)
    then show ?thesis using True by (simp add: WriteComplete)
  next
    case False
    then show ?thesis using assms by (simp add: WriteComplete)
  qed
next
  case CloseCall
  then show ?thesis using assms by (simp add: alive_def ended_def close_frame)
qed

lemma run_alive_or_ended:
  "alive addr s \<or> ended addr s \<Longrightarrow> alive addr (run H s xs) \<or> ended addr (run H s xs)"
  unfolding run_def
  by (induction xs arbitrary: s) (simp_all add: deliver_alive_or_ended del: deliver.simps)

lemma deliver_idle: "idle addr s \<Longrightarrow> idle addr (deliver H s x)"
  by (cases x) (simp_all add: idle_def close_frame)

lemma run_idle: "idle addr s \<Longrightarrow> idle addr (run H s xs)"
  unfolding run_def
  by (induction xs arbitrary: s) (simp_all add: deliver_idle del: deliver.simps)

lemma start_refused:
  assumes "remote_endpoint sock = Inr addr" "is_open sock" "failed (fst (atSessionStart H h0 addr))"
  shows "fst (start H (new_session sock h0)) = None" "idle addr (snd (start H (new_session sock h0)))"
proof -
  obtain err h' where a: "atSessionStart H h0 addr = (err, h')"
    by (cases "atSessionStart H h0 addr")
  with assms have f: "failed err" by simp
  show "fst (start H (new_session sock h0)) = None"
    using assms(1) f by (simp add: start_def new_session_def emit_def Let_def a)
  show "idle addr (snd (start H (new_session sock h0)))"
    using assms(1,2) f
    by (simp add: start_def new_session_def emit_def Let_def a idle_def is_io_def is_lifecycle_def)
qed

lemma start_accepted:
  assumes "remote_endpoint sock = Inr addr" "is_open sock" "\<not> failed (fst (atSessionStart H h0 addr))"
  shows "fst (start H (new_session sock h0)) = None" "alive addr (snd (start H (new_session sock h0)))"
proof -
  obtain err h' where a: "atSessionStart H h0 addr = (err, h')"
    by (cases "atSessionStart H h0 addr")
  with assms have f: "\<not> failed err" by simp
  show "fst (start H (new_session sock h0)) = None"
    using assms(1) f by (simp add: start_def new_session_def emit_def Let_def a)
  show "alive addr (snd (start H (new_session sock h0)))"
    using assms(1,2) f
    by (simp add: start_def new_session_def emit_def Let_def a alive_def is_lifecycle_def
          session_operator_success async_read_def failed_def)
qed

lemma session_operator_BreakPartial:
  assumes "coro s = Yield1"
    and "handle_loop H (emit (Log DEBUG (Text ''readed: %1.3fKb'')) s) (view_of (reqBuffer s))
           = (BreakPartial, s')"
  shows "session_operator H s Success transfered =
           (if resBuffer s' = [] then async_read s' else async_write s')"
  using assms by (simp add: session_operator_success failed_def Let_def emit_def)

lemma handle_loop_ReturnError_unexpected:
  "handle_loop H s v = (ReturnError e, s') \<Longrightarrow> e \<noteq> Success \<and> e \<noteq> PartialData"
proof (induction H s v rule: handle_loop.induct)
  case (1 H s v)
  obtain err out n h' where
    hd: "handle H (reqHandler s) (view_contents (reqBuffer s) v) = ((err, out, n), h')"
    by (metis prod.exhaust)
  show ?case
    using "1.prems" "1.IH"[OF hd[symmetric] refl refl refl]
    by (auto simp: handle_loop_step[OF hd] Let_def failed_def split: if_splits)
qed

lemma deliver_no_pending:
  assumes "pending s = None"
  shows "pending (deliver H s x) = None" "written (events (deliver H s x)) = written (events s)"
    "filter is_io (events (deliver H s x)) = filter is_io (events s)"
  using assms by (cases x; simp add: close_frame)+

lemma run_no_pending:
  "pending s = None \<Longrightarrow>
     pending (run H s xs) = None \<and> written (events (run H s xs)) = written (events s)
     \<and> filter is_io (events (run H s xs)) = filter is_io (events s)"
  unfolding run_def
  by (induction xs arbitrary: s) (simp_all add: deliver_no_pending del: deliver.simps)

lemma session_operator_ReturnError:
  assumes "coro s = Yield1"
    and "handle_loop H (emit (Log DEBUG (Text ''readed: %1.3fKb'')) s) (view_of (reqBuffer s))
           = (ReturnError e, s')"
  shows "session_operator H s Success transfered = (session_operator H s' e 0)\<lparr>coro := Complete\<rparr>"
  using assms by (simp add: session_operator_success failed_def Let_def emit_def)

lemma failure_path:
  assumes "failed e"
  shows "filter is_lifecycle (events (session_operator H s e n))
           = filter is_lifecycle (events s) @ [AtSessionClose, SocketShutdown, SocketClose]"
    "filter is_io (events (session_operator H s e n)) = filter is_io (events s)"
    "written (events (session_operator H s e n)) = written (events s)"
    "pending (session_operator H s e n) = pending s"
    "isOpen (session_operator H s e n) = False"
    "resBuffer (session_operator H s e n) = resBuffer s"
  using assms
  by (simp_all add: session_operator_failed emit_def atClose_lifecycle is_lifecycle_def is_io_def
        written_append isOpen_def atClose_def Let_def)

section \<open>Properties of the echo handler\<close>

lemma complete_incomplete: "complete_lines w @ incomplete_line w = w"
proof -
  have "rev (takeWhile (\<lambda>c. c \<noteq> CHR 0x0A) (rev w) @ dropWhile (\<lambda>c. c \<noteq> CHR 0x0A) (rev w)) = w"
    by simp
  then show ?thesis
    unfolding complete_lines_def incomplete_line_def rev_append .
qed

lemma complete_lines_no_newline:
  assumes "CHR 0x0A \<notin> set w"
  shows "complete_lines w = [] \<and> incomplete_line w = w"
proof -
  have t: "takeWhile (\<lambda>c. c \<noteq> CHR 0x0A) (rev w) = rev w"
    and d: "dropWhile (\<lambda>c. c \<noteq> CHR 0x0A) (rev w) = []"
    using assms by (auto simp: takeWhile_eq_all_conv)
  show ?thesis
    unfolding complete_lines_def incomplete_line_def t d by simp
qed

lemma complete_lines_line:
  "complete_lines ((l @ [CHR 0x0A]) @ w) = (l @ [CHR 0x0A]) @ complete_lines w"
  "incomplete_line ((l @ [CHR 0x0A]) @ w) = incomplete_line w"
proof -
  let ?P = "\<lambda>c. c \<noteq> CHR 0x0A"
  have r: "rev ((l @ [CHR 0x0A]) @ w) = rev w @ CHR 0x0A # rev l" by simp
  show "complete_lines ((l @ [CHR 0x0A]) @ w) = (l @ [CHR 0x0A]) @ complete_lines w"
  proof (cases "CHR 0x0A \<in> set w")
    case True
    then have "dropWhile ?P (rev w @ CHR 0x0A # rev l) = dropWhile ?P (rev w) @ CHR 0x0A # rev l"
      by (auto simp: dropWhile_append)
    then show ?thesis unfolding complete_lines_def r by simp
  next
    case False
    then have "dropWhile ?P (rev w @ CHR 0x0A # rev l) = CHR 0x0A # rev l"
      by (auto simp: dropWhile_append)
    then show ?thesis
      unfolding complete_lines_def[of "(l @ [CHR 0x0A]) @ w"] r
      using complete_lines_no_newline[OF False] by simp
  qed
  show "incomplete_line ((l @ [CHR 0x0A]) @ w) = incomplete_line w"
  proof (cases "CHR 0x0A \<in> set w")
    case True
    then have "takeWhile ?P (rev w @ CHR 0x0A # rev l) = takeWhile ?P (rev w)"
      by (auto simp: takeWhile_append)
    then show ?thesis unfolding incomplete_line_def r by simp
  next
    case False
    then have "takeWhile ?P (rev w @ CHR 0x0A # rev l) = rev w"
      by (auto simp: takeWhile_append)
    then show ?thesis
      unfolding incomplete_line_def[of "(l @ [CHR 0x0A]) @ w"] r
      using complete_lines_no_newline[OF False] by simp
  qed
qed

lemma split_at_newline:
  assumes "CHR 0x0A \<in> set w"
  shows "\<exists>r. w = takeWhile (\<lambda>c. c \<noteq> CHR 0x0A) w @ CHR 0x0A # r"
  using assms by (induction w) auto

lemma complete_lines_last:
  assumes "complete_lines x \<noteq> []"
  shows "\<exists>l. complete_lines x = l @ [CHR 0x0A]"
proof -
  let ?d = "dropWhile (\<lambda>c. c \<noteq> CHR 0x0A) (rev x)"
  have d: "?d \<noteq> []" using assms by (simp add: complete_lines_def)
  from hd_dropWhile[OF d] have "hd ?d = CHR 0x0A" by simp
  with d have "?d = CHR 0x0A # tl ?d" by (cases ?d) simp_all
  then have "rev ?d = rev (tl ?d) @ [CHR 0x0A]"
    by (cases ?d) simp_all
  then have "complete_lines x = rev (tl ?d) @ [CHR 0x0A]"
    unfolding complete_lines_def .
  then show ?thesis by blast
qed

lemma complete_lines_append:
  "complete_lines (x @ b) = complete_lines x @ complete_lines (incomplete_line x @ b)"
proof (cases "complete_lines x = []")
  case True
  then show ?thesis using complete_incomplete[of x] by simp
next
  case False
  from complete_lines_last[OF False] obtain l where l: "complete_lines x = l @ [CHR 0x0A]" ..
  have "x @ b = (l @ [CHR 0x0A]) @ (incomplete_line x @ b)"
    using complete_incomplete[of x] l by simp
  then have "complete_lines (x @ b) = complete_lines ((l @ [CHR 0x0A]) @ (incomplete_line x @ b))"
    by (rule arg_cong)
  then show ?thesis using l by (simp only: complete_lines_line(1))
qed

lemma echo_handle_line:
  assumes "CHR 0x0A \<in> set w"
  shows "\<exists>l. echo_handle h w = ((Success, l @ [CHR 0x0A], Suc (length l)), h)
        \<and> take (Suc (length l)) w = l @ [CHR 0x0A] \<and> Suc (length l) \<le> length w"
proof -
  from split_at_newline[OF assms] obtain l r where
    l: "l = takeWhile (\<lambda>c. c \<noteq> CHR 0x0A) w" and w: "w = l @ CHR 0x0A # r"
    by blast
  have t: "take (Suc (length l)) w = l @ [CHR 0x0A]"
    by (simp add: w)
  have n: "Suc (length l) \<le> length w"
    by (simp add: w)
  have "echo_handle h w = ((Success, l @ [CHR 0x0A], Suc (length l)), h)"
    using assms by (simp add: echo_handle_def lineReg_first_def l)
  with t n show ?thesis by blast
qed

lemma echo_handle_partial:
  "CHR 0x0A \<notin> set w \<Longrightarrow> echo_handle h w = ((PartialData, [], 0), h)"
  by (simp add: echo_handle_def lineReg_first_def)

lemma echo_loop:
  "handle_loop H s v = (x, s') \<Longrightarrow> H = EchoReqHandler \<Longrightarrow>
   sv_data v + sv_size v = length (reqBuffer s) \<Longrightarrow> length (reqBuffer s) < 2 ^ 64 \<Longrightarrow>
     x \<noteq> ReturnError e
     \<and> resBuffer s' = resBuffer s @ complete_lines (drop (sv_data v) (reqBuffer s))
     \<and> reqBuffer s' = incomplete_line (drop (sv_data v) (reqBuffer s))"
proof (induction H s v arbitrary: x s' rule: handle_loop.induct)
  case (1 H s v)
  let ?w = "view_contents (reqBuffer s) v"
  have w: "?w = drop (sv_data v) (reqBuffer s)" and lw: "length ?w = sv_size v"
    using "1.prems"(3) by (simp_all add: view_contents_def)
  have H: "handle H = echo_handle" using "1.prems"(2) by (simp add: EchoReqHandler_def)
  show ?case
  proof (cases "CHR 0x0A \<in> set ?w")
    case False
    from echo_handle_partial[OF False] have
      hd: "handle H (reqHandler s) ?w = ((PartialData, [], 0), reqHandler s)"
      by (simp add: H)
    have off: "sv_data v < 2 ^ 64" using "1.prems"(3,4) by arith
    from "1.prems"(1) off have "x = BreakPartial" "resBuffer s' = resBuffer s" "reqBuffer s' = ?w"
      by (auto simp: handle_loop_step[OF hd] Let_def failed_def emit_def w)
    then show ?thesis using complete_lines_no_newline[OF False] by (simp add: w)
  next
    case True
    from echo_handle_line[OF True] obtain l where
      hd: "handle H (reqHandler s) ?w = ((Success, l @ [CHR 0x0A], Suc (length l)), reqHandler s)"
      and t: "take (Suc (length l)) ?w = l @ [CHR 0x0A]" and n: "Suc (length l) \<le> length ?w"
      by (auto simp: H)
    let ?s1 = "emit (HandleCall ?w Success (l @ [CHR 0x0A]) (Suc (length l)))
                 (s\<lparr>reqHandler := reqHandler s, resBuffer := resBuffer s @ (l @ [CHR 0x0A])\<rparr>)"
    have split: "?w = (l @ [CHR 0x0A]) @ drop (Suc (length l)) ?w"
      using t by (metis append_take_drop_id)
    show ?thesis
    proof (cases "Suc (length l) \<ge> sv_size v")
      case True
      then have "drop (Suc (length l)) ?w = []" using lw by simp
      with split have e: "?w = (l @ [CHR 0x0A]) @ []" by simp
      have c: "complete_lines ?w = l @ [CHR 0x0A]" "incomplete_line ?w = []"
        using complete_lines_line[of l "[]"] complete_lines_no_newline[of "[]"] e by simp_all
      from "1.prems"(1) True have "x = BreakCleared" "resBuffer s' = resBuffer s @ (l @ [CHR 0x0A])"
        "reqBuffer s' = []"
        by (auto simp: handle_loop_step[OF hd] Let_def failed_def emit_def)
      then show ?thesis using c by (simp add: w[symmetric])
    next
      case False
      then have r: "handle_loop H ?s1 (advance v (Suc (length l))) = (x, s')"
        using "1.prems"(1) by (simp add: handle_loop_step[OF hd] Let_def failed_def)
      have wf: "sv_data (advance v (Suc (length l))) + sv_size (advance v (Suc (length l)))
                  = length (reqBuffer ?s1)"
        using False "1.prems"(3) by (simp add: advance_def emit_def)
      have cont: "failed Success = False" "\<not> (Suc (length l) = 0 \<or> sv_size v \<le> Suc (length l))"
        using False by (simp_all add: failed_def)
      have bound: "length (reqBuffer ?s1) < 2 ^ 64"
        using "1.prems"(4) by (simp add: emit_def)
      from "1.IH"[OF hd[symmetric] refl refl refl cont r "1.prems"(2) wf bound]
      have IH: "x \<noteq> ReturnError e"
        "resBuffer s' = (resBuffer s @ (l @ [CHR 0x0A])) @
            complete_lines (drop (sv_data v + Suc (length l)) (reqBuffer s))"
        "reqBuffer s' = incomplete_line (drop (sv_data v + Suc (length l)) (reqBuffer s))"
        by (simp_all add: emit_def advance_def)
      have d: "drop (sv_data v + Suc (length l)) (reqBuffer s) = drop (Suc (length l)) ?w"
        by (simp add: w add.commute)
      have c: "complete_lines ?w = (l @ [CHR 0x0A]) @ complete_lines (drop (Suc (length l)) ?w)"
        "incomplete_line ?w = incomplete_line (drop (Suc (length l)) ?w)"
        using complete_lines_line[of l "drop (Suc (length l)) ?w"] split by simp_all
      have "x \<noteq> ReturnError e \<and> resBuffer s' = resBuffer s @ complete_lines ?w
              \<and> reqBuffer s' = incomplete_line ?w"
        using IH c unfolding d by simp
      then show ?thesis unfolding w .
    qed
  qed
qed

lemma echo_read:
  assumes p: "pending s = Some PendingRead" and c: "coro s = Yield1" and b: "resBuffer s = []"
    and size: "length (reqBuffer s @ bytes) < 2 ^ 64"
  shows "written (events (deliver EchoReqHandler s (ReadComplete Success bytes)))
           = written (events s) @ complete_lines (reqBuffer s @ bytes)"
    and "reqBuffer (deliver EchoReqHandler s (ReadComplete Success bytes))
           = incomplete_line (reqBuffer s @ bytes)"
    and "complete_lines (reqBuffer s @ bytes) = [] \<Longrightarrow>
           pending (deliver EchoReqHandler s (ReadComplete Success bytes)) = Some PendingRead
           \<and> coro (deliver EchoReqHandler s (ReadComplete Success bytes)) = Yield1
           \<and> resBuffer (deliver EchoReqHandler s (ReadComplete Success bytes)) = []"
    and "complete_lines (reqBuffer s @ bytes) \<noteq> [] \<Longrightarrow>
           pending (deliver EchoReqHandler s (ReadComplete Success bytes)) = Some PendingWrite
           \<and> coro (deliver EchoReqHandler s (ReadComplete Success bytes)) = Yield2"
proof -
  let ?s0 = "s\<lparr>reqBuffer := reqBuffer s @ bytes, pending := None\<rparr>"
  let ?s1 = "emit (Log DEBUG (Text ''readed: %1.3fKb'')) ?s0"
  let ?d = "deliver EchoReqHandler s (ReadComplete Success bytes)"
  obtain x s2 where r: "handle_loop EchoReqHandler ?s1 (view_of (reqBuffer ?s0)) = (x, s2)"
    by (cases "handle_loop EchoReqHandler ?s1 (view_of (reqBuffer ?s0))")
  have wf: "sv_data (view_of (reqBuffer ?s0)) + sv_size (view_of (reqBuffer ?s0))
              = length (reqBuffer ?s1)"
    by (simp add: view_of_def emit_def)
  have bound: "length (reqBuffer ?s1) < 2 ^ 64"
    using size by (simp add: emit_def)
  from echo_loop[OF r refl wf bound] have
    x: "\<And>e. x \<noteq> ReturnError e"
    and res: "resBuffer s2 = complete_lines (reqBuffer s @ bytes)"
    and req: "reqBuffer s2 = incomplete_line (reqBuffer s @ bytes)"
    using b by (simp_all add: view_of_def emit_def)
  from handle_loop_frame[OF r] obtain es where
    "events s2 = events ?s1 @ es" "list_all is_internal es"
    by auto
  then have w: "written (events s2) = written (events s)"
    by (simp add: emit_def written_append written_internal)
  have "?d = session_operator EchoReqHandler ?s0 Success (length bytes)"
    using p by simp
  also have "\<dots> = (if resBuffer s2 = [] then async_read s2 else async_write s2)"
    using x c r by (cases x) (auto simp: session_operator_success failed_def Let_def emit_def)
  finally have d: "?d = (if resBuffer s2 = [] then async_read s2 else async_write s2)" .
  show "written (events ?d) = written (events s) @ complete_lines (reqBuffer s @ bytes)"
    unfolding d using w res by (simp add: async_read_def async_write_def emit_def written_append)
  show "reqBuffer ?d = incomplete_line (reqBuffer s @ bytes)"
    unfolding d using req by (simp add: async_read_def async_write_def emit_def)
  show "complete_lines (reqBuffer s @ bytes) = [] \<Longrightarrow>
           pending ?d = Some PendingRead \<and> coro ?d = Yield1 \<and> resBuffer ?d = []"
    unfolding d using res by (simp add: async_read_def emit_def)
  show "complete_lines (reqBuffer s @ bytes) \<noteq> [] \<Longrightarrow>
           pending ?d = Some PendingWrite \<and> coro ?d = Yield2"
    unfolding d using res by (simp add: async_write_def emit_def)
qed

lemma echo_write_complete:
  assumes "pending s = Some PendingWrite" and "coro s = Yield2"
  shows "pending (deliver H s (WriteComplete Success k)) = Some PendingRead
     \<and> coro (deliver H s (WriteComplete Success k)) = Yield1
     \<and> resBuffer (deliver H s (WriteComplete Success k)) = []
     \<and> reqBuffer (deliver H s (WriteComplete Success k)) = reqBuffer s
     \<and> written (events (deliver H s (WriteComplete Success k))) = written (events s)"
  using assms
  by (simp add: session_operator_success failed_def Let_def emit_def async_read_def written_append)

section \<open>Properties of the accept loop and of the builder\<close>

lemma server_operator_failed:
  "failed err \<Longrightarrow>
   server_operator H srv err sock =
     srv\<lparr>srv_events := srv_events srv @
       [if err = OperationAborted then Log DEBUG (Text ''accepting canceled'')
        else Log ERROR (Message err),
        Log DEBUG (Text ''break the server coroutine'')]\<rparr>"
  by (simp add: server_operator_def srv_emit_def Let_def)

lemma srv_deliver_stopped:
  assumes "\<not> accept_pending srv"
  shows "\<not> accept_pending (srv_deliver H srv x)"
    "filter is_accept (srv_events (srv_deliver H srv x)) = filter is_accept (srv_events srv)"
  using assms by (cases x; simp)+

lemma srv_run_stopped:
  "\<not> accept_pending srv \<Longrightarrow>
     \<not> accept_pending (srv_run H srv xs)
     \<and> filter is_accept (srv_events (srv_run H srv xs)) = filter is_accept (srv_events srv)"
  unfolding srv_run_def
  by (induction xs arbitrary: srv) (simp_all add: srv_deliver_stopped del: srv_deliver.simps)

lemma hostAndPortReg_Some:
  "hostAndPortReg s = Some (host, port) \<longleftrightarrow>
     s = host @ CHR '':'' # port \<and> host \<noteq> [] \<and> CHR '':'' \<notin> set host
     \<and> 1 \<le> length port \<and> length port \<le> 5 \<and> list_all is_digit port"
proof
  assume a: "hostAndPortReg s = Some (host, port)"
  let ?P = "\<lambda>c. c \<noteq> CHR '':''"
  obtain colon where d: "dropWhile ?P s = colon # port" and h: "host = takeWhile ?P s"
    and c: "host \<noteq> []" "1 \<le> length port" "length port \<le> 5" "list_all is_digit port"
    using a by (auto simp: hostAndPortReg_def Let_def split: list.splits if_splits)
  from hd_dropWhile[of ?P s] d have "colon = CHR '':''" by simp
  with d have "takeWhile ?P s @ dropWhile ?P s = host @ CHR '':'' # port"
    unfolding h by simp
  then have "s = host @ CHR '':'' # port" by simp
  moreover have "CHR '':'' \<notin> set host"
    unfolding h using set_takeWhileD by fastforce
  ultimately show "s = host @ CHR '':'' # port \<and> host \<noteq> [] \<and> CHR '':'' \<notin> set host
     \<and> 1 \<le> length port \<and> length port \<le> 5 \<and> list_all is_digit port"
    using c by simp
next
  assume a: "s = host @ CHR '':'' # port \<and> host \<noteq> [] \<and> CHR '':'' \<notin> set host
     \<and> 1 \<le> length port \<and> length port \<le> 5 \<and> list_all is_digit port"
  then have "takeWhile (\<lambda>c. c \<noteq> CHR '':'') s = host" "dropWhile (\<lambda>c. c \<noteq> CHR '':'') s = CHR '':'' # port"
    by (simp_all add: takeWhile_append dropWhile_append)
  then show "hostAndPortReg s = Some (host, port)"
    using a by (simp add: hostAndPortReg_def Let_def)
qed

lemma stoi_bound: "list_all is_digit port \<Longrightarrow> stoi port < 10 ^ length port"
proof -
  have "list_all is_digit port \<Longrightarrow> acc < 10 ^ k \<Longrightarrow>
          foldl (\<lambda>acc c. 10 * acc + digit_value c) acc port < 10 ^ (k + length port)" for acc k
  proof (induction port arbitrary: acc k)
    case Nil
    then show ?case by simp
  next
    case (Cons c cs)
    have "is_digit c" using Cons.prems(1) by simp
    then have "digit_value c \<le> 9"
      unfolding is_digit_def digit_value_def by simp arith
    with Cons.prems(2) have "10 * acc + digit_value c < 10 ^ Suc k" by simp
    from Cons.IH[OF _ this] Cons.prems(1) show ?case by simp
  qed
  from this[of 0 0] show "list_all is_digit port \<Longrightarrow> stoi port < 10 ^ length port"
    by (simp add: stoi_def)
qed

lemma split_at_colon:
  assumes "CHR '':'' \<notin> set host"
  shows "takeWhile (\<lambda>c. c \<noteq> CHR '':'') (host @ CHR '':'' # port) = host"
    and "dropWhile (\<lambda>c. c \<noteq> CHR '':'') (host @ CHR '':'' # port) = CHR '':'' # port"
  using assms by (simp_all add: takeWhile_append dropWhile_append)

lemma hostAndPortReg_host:
  assumes "hostAndPortReg (host @ CHR '':'' # port) = Some (h, p)" and "CHR '':'' \<notin> set host"
  shows "h = host \<and> p = port"
  using assms by (auto simp: hostAndPortReg_def Let_def split_at_colon split: if_splits)

lemma accepted_port_range:
  assumes "hostAndPortReg e = Some (host, port)" and "\<not> port_above_16_bits e"
  shows "stoi port \<le> 65535"
proof -
  from assms(1) have h: "e = host @ CHR '':'' # port" "CHR '':'' \<notin> set host"
    "1 \<le> length port" "length port \<le> 5" "list_all is_digit port"
    by (simp_all add: hostAndPortReg_Some)
  have p: "drop 1 (dropWhile (\<lambda>c. c \<noteq> CHR '':'') e) = port"
    unfolding h(1) by (simp add: split_at_colon[OF h(2)])
  show ?thesis
  proof (cases "length port = 5")
    case True
    from assms(2) have "\<not> (length port = 5 \<and> list_all is_digit port \<and> 65535 < stoi port)"
      unfolding port_above_16_bits_def Let_def p .
    then show ?thesis using True h(5) by simp
  next
    case False
    then have "length port \<le> 4" using h(4) by simp
    then have "(10::nat) ^ length port \<le> 10 ^ 4" by (intro power_increasing) simp_all
    moreover have "stoi port < 10 ^ length port" using h(5) by (rule stoi_bound)
    ultimately show ?thesis by simp
  qed
qed

text \<open>The equations that evaluate a run of an echo session.\<close>

lemmas eval_defs = run_def echo_session_def start_def new_session_def sample_socket_def
  EchoReqHandler_def echo_atSessionStart_def echo_handle_def lineReg_first_def emit_def
  session_operator.simps handle_loop.simps failed_def async_read_def async_write_def
  view_of_def view_contents_def advance_def Let_def

section \<open>The claims\<close>

text \<open>
  C2. In the processing loop, whatever the session and the view: when the handler returns
  success and the consumed length is 0 or at least the size of the view, the loop ends
  with the whole inbound buffer cleared; when it returns success and the consumed length
  is positive and smaller than the view, the loop goes on at once with the view advanced
  by exactly that count. Over the whole loop the outbound buffer grows by the responses
  of the handler calls, in call order.
\<close>

theorem handle_loop_success:
  assumes "handle H (reqHandler s) (view_contents (reqBuffer s) v) = ((Success, out, n), h')"
  shows "(n = 0 \<or> sv_size v \<le> n \<longrightarrow>
            handle_loop H s v =
              (BreakCleared,
               (emit (HandleCall (view_contents (reqBuffer s) v) Success out n)
                  (s\<lparr>reqHandler := h', resBuffer := resBuffer s @ out\<rparr>))\<lparr>reqBuffer := []\<rparr>))
       \<and> (0 < n \<and> n < sv_size v \<longrightarrow>
            handle_loop H s v =
              handle_loop H
                (emit (HandleCall (view_contents (reqBuffer s) v) Success out n)
                   (s\<lparr>reqHandler := h', resBuffer := resBuffer s @ out\<rparr>))
                (advance v n)
            \<and> sv_data (advance v n) = sv_data v + n
            \<and> sv_size (advance v n) = sv_size v - n
            \<and> view_contents (reqBuffer s) (advance v n) = drop n (view_contents (reqBuffer s) v))
       \<and> resBuffer (snd (handle_loop H s v)) =
            resBuffer s @ responses (drop (length (events s)) (events (snd (handle_loop H s v))))"
proof -
  obtain x s' where r: "handle_loop H s v = (x, s')" by (cases "handle_loop H s v")
  from handle_loop_responses[OF r] have
    "resBuffer (snd (handle_loop H s v)) =
       resBuffer s @ responses (drop (length (events s)) (events (snd (handle_loop H s v))))"
    by (auto simp: r)
  moreover have "sv_data (advance v n) = sv_data v + n" "sv_size (advance v n) = sv_size v - n"
    by (simp_all add: advance_def)
  ultimately show ?thesis
    by (simp add: handle_loop_step[OF assms] failed_def view_contents_advance)
qed

theorem handle_loop_success_witness:
  "handle EchoReqHandler (reqHandler (echo_session\<lparr>reqBuffer := ''a\<newline>b\<newline>''\<rparr>))
     (view_contents (reqBuffer (echo_session\<lparr>reqBuffer := ''a\<newline>b\<newline>''\<rparr>)) (view_of ''a\<newline>b\<newline>''))
     = ((Success, ''a\<newline>'', 2), ())
   \<and> (0::nat) < 2 \<and> 2 < sv_size (view_of ''a\<newline>b\<newline>'')
   \<and> handle_loop EchoReqHandler (echo_session\<lparr>reqBuffer := ''a\<newline>b\<newline>''\<rparr>) (view_of ''a\<newline>b\<newline>'') =
       (BreakCleared,
        echo_session\<lparr>reqBuffer := [], resBuffer := ''a\<newline>b\<newline>'',
          events := events echo_session @
            [HandleCall ''a\<newline>b\<newline>'' Success ''a\<newline>'' 2, HandleCall ''b\<newline>'' Success ''b\<newline>'' 2]\<rparr>)"
proof -
  let ?s = "echo_session\<lparr>reqBuffer := ''a\<newline>b\<newline>''\<rparr>"
  let ?v = "view_of ''a\<newline>b\<newline>''"
  let ?s1 = "emit (HandleCall (view_contents (reqBuffer ?s) ?v) Success ''a\<newline>'' 2)
               (?s\<lparr>reqHandler := (), resBuffer := resBuffer ?s @ ''a\<newline>''\<rparr>)"
  have h1: "handle EchoReqHandler (reqHandler ?s) (view_contents (reqBuffer ?s) ?v)
              = ((Success, ''a\<newline>'', 2), ())"
    by code_simp
  have n1: "(0::nat) < 2 \<and> 2 < sv_size ?v"
    by (simp add: view_of_def)
  have h2: "handle EchoReqHandler (reqHandler ?s1) (view_contents (reqBuffer ?s1) (advance ?v 2))
              = ((Success, ''b\<newline>'', 2), ())"
    by code_simp
  have n2: "sv_size (advance ?v 2) \<le> 2"
    by (simp add: view_of_def advance_def)
  have "handle_loop EchoReqHandler ?s ?v = handle_loop EchoReqHandler ?s1 (advance ?v 2)"
    using handle_loop_success[OF h1] n1 by blast
  also have "\<dots> = (BreakCleared,
      (emit (HandleCall (view_contents (reqBuffer ?s1) (advance ?v 2)) Success ''b\<newline>'' 2)
         (?s1\<lparr>reqHandler := (), resBuffer := resBuffer ?s1 @ ''b\<newline>''\<rparr>))\<lparr>reqBuffer := []\<rparr>)"
    using handle_loop_success[OF h2] n2 by blast
  also have "\<dots> = (BreakCleared,
        echo_session\<lparr>reqBuffer := [], resBuffer := ''a\<newline>b\<newline>'',
          events := events echo_session @
            [HandleCall ''a\<newline>b\<newline>'' Success ''a\<newline>'' 2, HandleCall ''b\<newline>'' Success ''b\<newline>'' 2]\<rparr>)"
    by code_simp
  finally show ?thesis using h1 n1 by blast
qed

text \<open>
  C6. The echo handler, on the request \<open>hello\<close> with its line feed, returns success,
  pushes exactly these 6 bytes to the response and sets the consumed length to 6; on any
  request its consumed length is at most the length of the request.
\<close>

theorem echo_handle_hello:
  "handle EchoReqHandler h ''hello\<newline>'' = ((Success, ''hello\<newline>'', 6), h)
   \<and> snd (snd (fst (handle EchoReqHandler h request))) \<le> length request"
proof -
  have "length (takeWhile (\<lambda>c. c \<noteq> CHR 0x0A) request) < length request"
    if "CHR 0x0A \<in> set request"
    using that by (induction request) auto
  then show ?thesis
    by (auto simp: EchoReqHandler_def echo_handle_def lineReg_first_def Suc_le_eq)
qed

text \<open>
  C10. \<open>close\<close> on a session whose socket is already closed only logs a warning: the
  session is otherwise unchanged and nothing is cancelled, also when \<open>close\<close> is called
  again.
\<close>

theorem close_closed_session:
  assumes "isOpen s = False"
  shows "close s = s\<lparr>events := events s @ [Log WARNING (Text ''session already closed'')]\<rparr>
         \<and> close (close s) =
             s\<lparr>events := events s @ [Log WARNING (Text ''session already closed''),
                                      Log WARNING (Text ''session already closed'')]\<rparr>
         \<and> isOpen (close s) = False
         \<and> SocketCancel \<notin> set (drop (length (events s)) (events (close (close s))))"
  using assms by (simp add: close_def isOpen_def emit_def)

theorem close_closed_session_witness:
  "isOpen (deliver EchoReqHandler echo_session (ReadComplete Eof [])) = False
   \<and> close (close (deliver EchoReqHandler echo_session (ReadComplete Eof []))) =
       (deliver EchoReqHandler echo_session (ReadComplete Eof []))
         \<lparr>events := events (deliver EchoReqHandler echo_session (ReadComplete Eof [])) @
            [Log WARNING (Text ''session already closed''),
             Log WARNING (Text ''session already closed'')]\<rparr>"
proof -
  have c: "isOpen (deliver EchoReqHandler echo_session (ReadComplete Eof [])) = False"
    by code_simp
  show ?thesis
    using close_closed_session[OF c] c by blast
qed

text \<open>
  C3, as amended. For a session started on a connected socket: \<open>atSessionStart\<close> is
  called exactly once, before anything else of the life of the session. When it reports
  failure, \<open>atSessionClose\<close> is never called and the socket is never shut down or closed by
  the session. When it succeeds, \<open>atSessionClose\<close> is called at most once: the session is
  either still waiting for an operation, with no \<open>atSessionClose\<close> yet, or it has ended,
  and then \<open>atSessionClose\<close>, the shutdown and the close of the socket happened exactly
  once each, in this order, after \<open>atSessionStart\<close>.
\<close>

theorem session_lifecycle:
  assumes "remote_endpoint sock = Inr addr" and "is_open sock"
  shows "fst (start H (new_session sock h0)) = None
    \<and> (failed (fst (atSessionStart H h0 addr)) \<longrightarrow>
         filter is_lifecycle (events (run H (snd (start H (new_session sock h0))) xs))
           = [AtSessionStart addr])
    \<and> (\<not> failed (fst (atSessionStart H h0 addr)) \<longrightarrow>
         (pending (run H (snd (start H (new_session sock h0))) xs) \<noteq> None
          \<and> isOpen (run H (snd (start H (new_session sock h0))) xs)
          \<and> filter is_lifecycle (events (run H (snd (start H (new_session sock h0))) xs))
              = [AtSessionStart addr])
         \<or>
         (pending (run H (snd (start H (new_session sock h0))) xs) = None
          \<and> \<not> isOpen (run H (snd (start H (new_session sock h0))) xs)
          \<and> filter is_lifecycle (events (run H (snd (start H (new_session sock h0))) xs))
              = [AtSessionStart addr, AtSessionClose, SocketShutdown, SocketClose]))"
proof (cases "failed (fst (atSessionStart H h0 addr))")
  case True
  from run_idle[OF start_refused(2)[OF assms True], of H xs] start_refused(1)[OF assms True] True
  show ?thesis by (simp add: idle_def)
next
  case False
  from run_alive_or_ended[OF disjI1[OF start_accepted(2)[OF assms False]], of H xs]
    start_accepted(1)[OF assms False] False
  show ?thesis by (auto simp: alive_def ended_def isOpen_def)
qed

theorem session_lifecycle_witness:
  "remote_endpoint sample_socket = Inr ''127.0.0.1:40000'' \<and> is_open sample_socket
   \<and> \<not> failed (fst (atSessionStart EchoReqHandler () ''127.0.0.1:40000''))
   \<and> filter is_lifecycle
        (events (run EchoReqHandler (snd (start EchoReqHandler (new_session sample_socket ())))
           [ReadComplete Success ''hi\<newline>'', WriteComplete Success 3, ReadComplete Eof []]))
       = [AtSessionStart ''127.0.0.1:40000'', AtSessionClose, SocketShutdown, SocketClose]
   \<and> failed (fst (atSessionStart refusing_handler () ''127.0.0.1:40000''))
   \<and> filter is_lifecycle
        (events (run refusing_handler (snd (start refusing_handler (new_session sample_socket ())))
           [CloseCall]))
       = [AtSessionStart ''127.0.0.1:40000'']"
proof -
  have r: "remote_endpoint sample_socket = Inr ''127.0.0.1:40000''" and o: "is_open sample_socket"
    by (simp_all add: sample_socket_def)
  have e: "\<not> failed (fst (atSessionStart EchoReqHandler () ''127.0.0.1:40000''))"
    by (simp add: EchoReqHandler_def echo_atSessionStart_def failed_def)
  have f: "failed (fst (atSessionStart refusing_handler () ''127.0.0.1:40000''))"
    by (simp add: refusing_handler_def failed_def)
  have p: "pending (run EchoReqHandler (snd (start EchoReqHandler (new_session sample_socket ())))
             [ReadComplete Success ''hi\<newline>'', WriteComplete Success 3, ReadComplete Eof []]) = None"
    by code_simp
  show ?thesis
    using session_lifecycle[OF r o, of EchoReqHandler "()"
            "[ReadComplete Success ''hi\<newline>'', WriteComplete Success 3, ReadComplete Eof []]"]
          session_lifecycle[OF r o, of refusing_handler "()" "[CloseCall]"]
          r o e f p
    by blast
qed

text \<open>
  C3 as stated fails: a handler that refuses the session at \<open>atSessionStart\<close> is never
  told of the close, also after the server closed the session.
\<close>

theorem session_lifecycle_counterexample:
  "events (run refusing_handler (snd (start refusing_handler (new_session sample_socket ())))
     [CloseCall])
   = [Log TRACE (Text ''construct session''), Log TRACE (Text ''start new session''),
      AtSessionStart ''127.0.0.1:40000'', Log ERROR (Message (OtherError 1)),
      Log WARNING (Text ''session doesn't start, because get handler error''),
      Log TRACE (Text ''close session''), SocketCancel]"
  by code_simp

text \<open>
  C9. When \<open>atSessionStart\<close> reports failure, whatever happens afterwards the session
  never starts a read or a write, has no operation pending, and its socket stays open:
  the session neither shuts it down nor closes it.
\<close>

theorem failed_start_no_io:
  assumes "remote_endpoint sock = Inr addr" and "is_open sock"
    and "failed (fst (atSessionStart H h0 addr))"
  shows "filter is_io (events (run H (snd (start H (new_session sock h0))) xs)) = []
    \<and> pending (run H (snd (start H (new_session sock h0))) xs) = None
    \<and> isOpen (run H (snd (start H (new_session sock h0))) xs)
    \<and> SocketShutdown \<notin> set (events (run H (snd (start H (new_session sock h0))) xs))
    \<and> SocketClose \<notin> set (events (run H (snd (start H (new_session sock h0))) xs))"
proof -
  let ?s = "run H (snd (start H (new_session sock h0))) xs"
  have i: "idle addr ?s" by (rule run_idle[OF start_refused(2)[OF assms]])
  have "SocketShutdown \<notin> set (filter is_lifecycle (events ?s))"
       "SocketClose \<notin> set (filter is_lifecycle (events ?s))"
    using i by (simp_all add: idle_def)
  then have "SocketShutdown \<notin> set (events ?s)" "SocketClose \<notin> set (events ?s)"
    by (simp_all add: is_lifecycle_def)
  then show ?thesis using i by (simp add: idle_def isOpen_def)
qed

theorem failed_start_no_io_witness:
  "remote_endpoint sample_socket = Inr ''127.0.0.1:40000'' \<and> is_open sample_socket
   \<and> failed (fst (atSessionStart refusing_handler () ''127.0.0.1:40000''))
   \<and> filter is_io
        (events (run refusing_handler (snd (start refusing_handler (new_session sample_socket ())))
           [ReadComplete Success ''hi\<newline>'', CloseCall])) = []
   \<and> isOpen (run refusing_handler (snd (start refusing_handler (new_session sample_socket ())))
           [ReadComplete Success ''hi\<newline>'', CloseCall])"
proof -
  have r: "remote_endpoint sample_socket = Inr ''127.0.0.1:40000''" and o: "is_open sample_socket"
    by (simp_all add: sample_socket_def)
  have f: "failed (fst (atSessionStart refusing_handler () ''127.0.0.1:40000''))"
    by (simp add: refusing_handler_def failed_def)
  show ?thesis
    using failed_start_no_io[OF r o f, of "[ReadComplete Success ''hi\<newline>'', CloseCall]"] r o f
    by blast
qed

text \<open>
  C1, as amended. When the handler reports partial data, at whatever turn of the loop, the
  loop ends there and the inbound buffer loses its first bytes, as many as the offset of
  the current view plus the consumed length the handler reported, a sum taken in
  \<^verbatim>\<open>size_t\<close>. When that sum does not wrap, as with a consumed length that stays within
  the view in a buffer below the size limit, what is kept is the view of that call less
  its consumed length. After the loop the session starts the next read without writing if
  the outbound buffer is empty, and writes the outbound buffer otherwise. For the echo
  handler, a read of \<open>hel\<close> into empty buffers produces no output, leaves these 3 bytes in
  the inbound buffer and starts the next read.
\<close>

theorem partial_data_pass:
  "(handle H (reqHandler s) (view_contents (reqBuffer s) v) = ((PartialData, out, n), h') \<longrightarrow>
      handle_loop H s v =
        (BreakPartial,
         emit (Log WARNING (Text ''partial data in request: %1.3fKb''))
           ((emit (HandleCall (view_contents (reqBuffer s) v) PartialData out n)
               (s\<lparr>reqHandler := h', resBuffer := resBuffer s @ out\<rparr>))
            \<lparr>reqBuffer := drop ((sv_data v + n) mod 2 ^ 64) (reqBuffer s)\<rparr>))
      \<and> (sv_data v + n < 2 ^ 64 \<longrightarrow>
           reqBuffer (snd (handle_loop H s v)) = drop n (drop (sv_data v) (reqBuffer s))))
   \<and> (handle_loop H s v = (BreakPartial, s') \<and> sv_data v + sv_size v = length (reqBuffer s) \<longrightarrow>
        (\<exists>w out n es.
           events s' = events s @ es @
             [HandleCall w PartialData out n, Log WARNING (Text ''partial data in request: %1.3fKb'')]
           \<and> w = drop (length (reqBuffer s) - length w) (reqBuffer s)
           \<and> reqBuffer s' =
               drop ((length (reqBuffer s) - length w + n) mod 2 ^ 64) (reqBuffer s)
           \<and> (length (reqBuffer s) - length w + n < 2 ^ 64 \<longrightarrow> reqBuffer s' = drop n w)))
   \<and> (coro s = Yield1 \<and>
       handle_loop H (emit (Log DEBUG (Text ''readed: %1.3fKb'')) s) (view_of (reqBuffer s))
         = (BreakPartial, s') \<longrightarrow>
        session_operator H s Success transfered =
          (if resBuffer s' = [] then async_read s' else async_write s'))
   \<and> (pending t = Some PendingRead \<and> coro t = Yield1 \<and> reqBuffer t = [] \<and> resBuffer t = [] \<longrightarrow>
        deliver EchoReqHandler t (ReadComplete Success ''hel'') =
          t\<lparr>reqBuffer := ''hel'',
            events := events t @
              [Log DEBUG (Text ''readed: %1.3fKb''), HandleCall ''hel'' PartialData [] 0,
               Log WARNING (Text ''partial data in request: %1.3fKb''), AsyncRead]\<rparr>)"
proof (intro conjI impI)
  assume h: "handle H (reqHandler s) (view_contents (reqBuffer s) v) = ((PartialData, out, n), h')"
  then show l: "handle_loop H s v =
        (BreakPartial,
         emit (Log WARNING (Text ''partial data in request: %1.3fKb''))
           ((emit (HandleCall (view_contents (reqBuffer s) v) PartialData out n)
               (s\<lparr>reqHandler := h', resBuffer := resBuffer s @ out\<rparr>))
            \<lparr>reqBuffer := drop ((sv_data v + n) mod 2 ^ 64) (reqBuffer s)\<rparr>))"
    by (simp add: handle_loop_step failed_def emit_def)
  assume "sv_data v + n < 2 ^ 64"
  then show "reqBuffer (snd (handle_loop H s v)) = drop n (drop (sv_data v) (reqBuffer s))"
    unfolding l by (simp add: emit_def add.commute)
next
  assume a: "handle_loop H s v = (BreakPartial, s') \<and> sv_data v + sv_size v = length (reqBuffer s)"
  from handle_loop_partial_tail[OF conjunct1[OF a] conjunct2[OF a]] obtain w out n es where
    e: "events s' = events s @ es @
          [HandleCall w PartialData out n, Log WARNING (Text ''partial data in request: %1.3fKb'')]"
    and w: "w = drop (length (reqBuffer s) - length w) (reqBuffer s)"
    and r: "reqBuffer s' = drop ((length (reqBuffer s) - length w + n) mod 2 ^ 64) (reqBuffer s)"
    by (elim exE conjE)
  have "reqBuffer s' = drop n w" if "length (reqBuffer s) - length w + n < 2 ^ 64"
  proof -
    have "reqBuffer s' = drop (length (reqBuffer s) - length w + n) (reqBuffer s)"
      using r that by simp
    also have "\<dots> = drop n (drop (length (reqBuffer s) - length w) (reqBuffer s))"
      by (simp add: add.commute)
    finally show ?thesis by (simp only: w[symmetric])
  qed
  with e w r have "events s' = events s @ es @
             [HandleCall w PartialData out n, Log WARNING (Text ''partial data in request: %1.3fKb'')]
           \<and> w = drop (length (reqBuffer s) - length w) (reqBuffer s)
           \<and> reqBuffer s' =
               drop ((length (reqBuffer s) - length w + n) mod 2 ^ 64) (reqBuffer s)
           \<and> (length (reqBuffer s) - length w + n < 2 ^ 64 \<longrightarrow> reqBuffer s' = drop n w)"
    by (intro conjI impI)
  then show "\<exists>w out n es.
           events s' = events s @ es @
             [HandleCall w PartialData out n, Log WARNING (Text ''partial data in request: %1.3fKb'')]
           \<and> w = drop (length (reqBuffer s) - length w) (reqBuffer s)
           \<and> reqBuffer s' =
               drop ((length (reqBuffer s) - length w + n) mod 2 ^ 64) (reqBuffer s)
           \<and> (length (reqBuffer s) - length w + n < 2 ^ 64 \<longrightarrow> reqBuffer s' = drop n w)"
    by blast
next
  assume "coro s = Yield1 \<and>
       handle_loop H (emit (Log DEBUG (Text ''readed: %1.3fKb'')) s) (view_of (reqBuffer s))
         = (BreakPartial, s')"
  then show "session_operator H s Success transfered =
          (if resBuffer s' = [] then async_read s' else async_write s')"
    by (simp add: session_operator_BreakPartial)
next
  assume a: "pending t = Some PendingRead \<and> coro t = Yield1 \<and> reqBuffer t = [] \<and> resBuffer t = []"
  let ?s0 = "t\<lparr>reqBuffer := reqBuffer t @ ''hel'', pending := None\<rparr>"
  let ?s1 = "emit (Log DEBUG (Text ''readed: %1.3fKb'')) ?s0"
  let ?s2 = "t\<lparr>reqBuffer := ''hel'', pending := None,
            events := events t @
              [Log DEBUG (Text ''readed: %1.3fKb''), HandleCall ''hel'' PartialData [] 0,
               Log WARNING (Text ''partial data in request: %1.3fKb'')]\<rparr>"
  have h: "handle EchoReqHandler (reqHandler ?s1) (view_contents (reqBuffer ?s1) (view_of (reqBuffer ?s0)))
             = ((PartialData, [], 0), reqHandler t)"
    using a by (simp add: EchoReqHandler_def echo_handle_def lineReg_first_def emit_def
                   view_contents_def view_of_def)
  have hl: "handle_loop EchoReqHandler ?s1 (view_of (reqBuffer ?s0)) = (BreakPartial, ?s2)"
    using a handle_loop_step[OF h] by (simp add: failed_def emit_def view_of_def view_contents_def)
  have "deliver EchoReqHandler t (ReadComplete Success ''hel'')
          = session_operator EchoReqHandler ?s0 Success (length ''hel'')"
    using a by simp
  also have "\<dots> = (if resBuffer ?s2 = [] then async_read ?s2 else async_write ?s2)"
    using a by (intro session_operator_BreakPartial[OF _ hl]) simp
  also have "\<dots> = t\<lparr>reqBuffer := ''hel'',
            events := events t @
              [Log DEBUG (Text ''readed: %1.3fKb''), HandleCall ''hel'' PartialData [] 0,
               Log WARNING (Text ''partial data in request: %1.3fKb''), AsyncRead]\<rparr>"
    using a by (simp add: async_read_def emit_def)
  finally show "deliver EchoReqHandler t (ReadComplete Success ''hel'') =
          t\<lparr>reqBuffer := ''hel'',
            events := events t @
              [Log DEBUG (Text ''readed: %1.3fKb''), HandleCall ''hel'' PartialData [] 0,
               Log WARNING (Text ''partial data in request: %1.3fKb''), AsyncRead]\<rparr>" .
qed

theorem partial_data_pass_witness:
  "handle EchoReqHandler (reqHandler (echo_session\<lparr>reqBuffer := ''hel''\<rparr>))
       (view_contents (reqBuffer (echo_session\<lparr>reqBuffer := ''hel''\<rparr>)) (view_of ''hel''))
     = ((PartialData, [], 0), ())
   \<and> handle_loop EchoReqHandler (echo_session\<lparr>reqBuffer := ''hel''\<rparr>) (view_of ''hel'') =
       (BreakPartial,
        echo_session\<lparr>reqBuffer := ''hel'',
          events := events echo_session @
            [HandleCall ''hel'' PartialData [] 0,
             Log WARNING (Text ''partial data in request: %1.3fKb'')]\<rparr>)
   \<and> pending echo_session = Some PendingRead \<and> coro echo_session = Yield1
   \<and> reqBuffer echo_session = [] \<and> resBuffer echo_session = []
   \<and> deliver EchoReqHandler echo_session (ReadComplete Success ''hel'') =
       echo_session\<lparr>reqBuffer := ''hel'',
         events := events echo_session @
           [Log DEBUG (Text ''readed: %1.3fKb''), HandleCall ''hel'' PartialData [] 0,
            Log WARNING (Text ''partial data in request: %1.3fKb''), AsyncRead]\<rparr>
   \<and> handle overclaiming_handler (0::nat) ''bcd'' = ((PartialData, [], 2 ^ 64 - 1), 1)
   \<and> reqBuffer (snd (handle_loop overclaiming_handler
         (new_session sample_socket 0\<lparr>reqBuffer := ''a\<newline>bcd''\<rparr>) \<lparr>sv_data = 2, sv_size = 3\<rparr>))
       = ''\<newline>bcd''"
proof -
  let ?s = "echo_session\<lparr>reqBuffer := ''hel''\<rparr>"
  have h: "handle EchoReqHandler (reqHandler ?s) (view_contents (reqBuffer ?s) (view_of ''hel''))
             = ((PartialData, [], 0), ())"
    by code_simp
  have e: "pending echo_session = Some PendingRead \<and> coro echo_session = Yield1
             \<and> reqBuffer echo_session = [] \<and> resBuffer echo_session = []"
    by code_simp
  note t1 = partial_data_pass[where H = EchoReqHandler and s = ?s and v = "view_of ''hel''"
      and out = "[]" and n = 0 and h' = "()", THEN conjunct1, rule_format, OF h, THEN conjunct1]
  have "(BreakPartial,
         emit (Log WARNING (Text ''partial data in request: %1.3fKb''))
           ((emit (HandleCall (view_contents (reqBuffer ?s) (view_of ''hel'')) PartialData [] 0)
               (?s\<lparr>reqHandler := (), resBuffer := resBuffer ?s @ []\<rparr>))
            \<lparr>reqBuffer := drop ((sv_data (view_of ''hel'') + 0) mod 2 ^ 64) (reqBuffer ?s)\<rparr>))
      = (BreakPartial,
        echo_session\<lparr>reqBuffer := ''hel'',
          events := events echo_session @
            [HandleCall ''hel'' PartialData [] 0,
             Log WARNING (Text ''partial data in request: %1.3fKb'')]\<rparr>)"
    by (simp add: emit_def view_of_def view_contents_def)
  with t1 have l: "handle_loop EchoReqHandler ?s (view_of ''hel'') =
       (BreakPartial,
        echo_session\<lparr>reqBuffer := ''hel'',
          events := events echo_session @
            [HandleCall ''hel'' PartialData [] 0,
             Log WARNING (Text ''partial data in request: %1.3fKb'')]\<rparr>)"
    by (rule trans)
  note d = partial_data_pass[where H = EchoReqHandler and s = ?s and t = echo_session,
      THEN conjunct2, THEN conjunct2, THEN conjunct2, rule_format, OF e]
  let ?o = "new_session sample_socket (0::nat)\<lparr>reqBuffer := ''a\<newline>bcd''\<rparr>"
  let ?v = "\<lparr>sv_data = 2, sv_size = 3\<rparr>"
  have ho: "handle overclaiming_handler (0::nat) ''bcd'' = ((PartialData, [], 2 ^ 64 - 1), 1)"
    by (simp add: overclaiming_handler_def lineReg_first_def)
  have ho': "handle overclaiming_handler (reqHandler ?o) (view_contents (reqBuffer ?o) ?v)
               = ((PartialData, [], 2 ^ 64 - 1), 1)"
    using ho by (simp add: new_session_def view_contents_def)
  note t2 = partial_data_pass[where H = overclaiming_handler and s = ?o and v = ?v,
      THEN conjunct1, rule_format, OF ho', THEN conjunct1]
  have w: "reqBuffer (snd (handle_loop overclaiming_handler ?o ?v)) = ''\<newline>bcd''"
    unfolding t2 by (simp add: emit_def new_session_def)
  show ?thesis by (intro conjI h l e[THEN conjunct1] e[THEN conjunct2, THEN conjunct1]
      e[THEN conjunct2, THEN conjunct2, THEN conjunct1]
      e[THEN conjunct2, THEN conjunct2, THEN conjunct2] d ho w)
qed

text \<open>
  C1 as stated fails: on one read of a complete line followed by the start of the next,
  the handler reports partial data at its second call and the session writes the echo of
  the first line before it reads again.
\<close>

theorem partial_data_counterexample:
  "events (deliver EchoReqHandler echo_session (ReadComplete Success ''a\<newline>b''))
     = [Log TRACE (Text ''construct session''), Log TRACE (Text ''start new session''),
        AtSessionStart ''127.0.0.1:40000'', AsyncRead,
        Log DEBUG (Text ''readed: %1.3fKb''),
        HandleCall ''a\<newline>b'' Success ''a\<newline>'' 2,
        HandleCall ''b'' PartialData [] 0,
        Log WARNING (Text ''partial data in request: %1.3fKb''),
        AsyncWrite ''a\<newline>'']
   \<and> pending (deliver EchoReqHandler echo_session (ReadComplete Success ''a\<newline>b''))
       = Some PendingWrite
   \<and> reqBuffer (deliver EchoReqHandler echo_session (ReadComplete Success ''a\<newline>b'')) = ''b''"
  by (simp add: eval_defs)

text \<open>
  C7. When the handler returns a status that is neither success nor partial data, the
  loop is left at once with that status. The session then calls its own operator with
  the status as the error, which is the branch a failed read or write takes: the handler
  is told of the close, the socket is shut down and closed. Nothing is written in this
  pass or ever after, the staged output stays in the outbound buffer. What is delivered
  to one session of a server changes no other session, nor the list of sessions, nor the
  accept loop.
\<close>

theorem unexpected_handler_error:
  "(handle H (reqHandler s) (view_contents (reqBuffer s) v) = ((err, out, n), h')
      \<and> err \<noteq> Success \<and> err \<noteq> PartialData \<longrightarrow>
      handle_loop H s v =
        (ReturnError err,
         emit (HandleCall (view_contents (reqBuffer s) v) err out n)
           (s\<lparr>reqHandler := h', resBuffer := resBuffer s @ out\<rparr>)))
   \<and> (coro s = Yield1 \<and> pending s = None \<and>
       handle_loop H (emit (Log DEBUG (Text ''readed: %1.3fKb'')) s) (view_of (reqBuffer s))
         = (ReturnError e, s') \<longrightarrow>
        e \<noteq> Success \<and> e \<noteq> PartialData
        \<and> session_operator H s Success transfered
            = (session_operator H s' e 0)\<lparr>coro := Complete\<rparr>
        \<and> session_operator H s' e 0 =
            emit (Log DEBUG (Text ''end of session coroutine''))
              (atClose H
                 (emit (if e = Eof then Log DEBUG (Text ''client close connection'')
                        else if e = OperationAborted then Log DEBUG (Text ''session canceled'')
                        else Log ERROR (Message e)) s'))
        \<and> filter is_lifecycle (events (session_operator H s Success transfered))
            = filter is_lifecycle (events s) @ [AtSessionClose, SocketShutdown, SocketClose]
        \<and> isOpen (session_operator H s Success transfered) = False
        \<and> resBuffer (session_operator H s Success transfered) = resBuffer s'
        \<and> filter is_io (events (run H (session_operator H s Success transfered) xs))
            = filter is_io (events s)
        \<and> written (events (run H (session_operator H s Success transfered) xs))
            = written (events s))
   \<and> (failed e \<and> pending s = Some PendingRead \<longrightarrow>
        deliver H s (ReadComplete e bytes) =
          emit (Log DEBUG (Text ''end of session coroutine''))
            (atClose H
               (emit (if e = Eof then Log DEBUG (Text ''client close connection'')
                      else if e = OperationAborted then Log DEBUG (Text ''session canceled'')
                      else Log ERROR (Message e))
                  (s\<lparr>reqBuffer := reqBuffer s @ bytes, pending := None\<rparr>))))
   \<and> (other \<noteq> session \<longrightarrow>
        store (srv_deliver H srv (SessionStimulus session x)) ! other = store srv ! other
        \<and> sessions (srv_deliver H srv (SessionStimulus session x)) = sessions srv
        \<and> accept_pending (srv_deliver H srv (SessionStimulus session x)) = accept_pending srv
        \<and> srv_events (srv_deliver H srv (SessionStimulus session x)) = srv_events srv)"
proof (intro conjI impI)
  assume "handle H (reqHandler s) (view_contents (reqBuffer s) v) = ((err, out, n), h')
      \<and> err \<noteq> Success \<and> err \<noteq> PartialData"
  then show "handle_loop H s v =
        (ReturnError err,
         emit (HandleCall (view_contents (reqBuffer s) v) err out n)
           (s\<lparr>reqHandler := h', resBuffer := resBuffer s @ out\<rparr>))"
    by (simp add: handle_loop_step failed_def)
next
  assume a: "coro s = Yield1 \<and> pending s = None \<and>
       handle_loop H (emit (Log DEBUG (Text ''readed: %1.3fKb'')) s) (view_of (reqBuffer s))
         = (ReturnError e, s')"
  then have r: "handle_loop H (emit (Log DEBUG (Text ''readed: %1.3fKb'')) s) (view_of (reqBuffer s))
         = (ReturnError e, s')" and c: "coro s = Yield1" and p: "pending s = None"
    by simp_all
  from handle_loop_ReturnError_unexpected[OF r]
  show u1: "e \<noteq> Success" and u2: "e \<noteq> PartialData" by simp_all
  from u1 have f: "failed e" by (simp add: failed_def)
  show eq: "session_operator H s Success transfered = (session_operator H s' e 0)\<lparr>coro := Complete\<rparr>"
    by (rule session_operator_ReturnError[OF c r])
  show "session_operator H s' e 0 =
            emit (Log DEBUG (Text ''end of session coroutine''))
              (atClose H
                 (emit (if e = Eof then Log DEBUG (Text ''client close connection'')
                        else if e = OperationAborted then Log DEBUG (Text ''session canceled'')
                        else Log ERROR (Message e)) s'))"
    by (rule session_operator_failed[OF f])
  from handle_loop_frame[OF r] obtain es where
    fr: "socket s' = socket s" "pending s' = pending s"
        "events s' = events s @ Log DEBUG (Text ''readed: %1.3fKb'') # es" "list_all is_internal es"
    by (auto simp: emit_def)
  have L: "filter is_lifecycle (events s') = filter is_lifecycle (events s)"
    and I: "filter is_io (events s') = filter is_io (events s)"
    and W: "written (events s') = written (events s)"
    using fr by (simp_all add: filter_lifecycle_internal filter_io_internal written_internal
                   written_append is_lifecycle_def is_io_def)
  show "filter is_lifecycle (events (session_operator H s Success transfered))
            = filter is_lifecycle (events s) @ [AtSessionClose, SocketShutdown, SocketClose]"
    using failure_path(1)[OF f, of H s' 0] L by (simp add: eq)
  show "isOpen (session_operator H s Success transfered) = False"
    using failure_path(5)[OF f, of H s' 0] by (simp add: eq isOpen_def)
  show "resBuffer (session_operator H s Success transfered) = resBuffer s'"
    using failure_path(6)[OF f, of H s' 0] by (simp add: eq)
  have pn: "pending (session_operator H s Success transfered) = None"
    using failure_path(4)[OF f, of H s' 0] fr p by (simp add: eq)
  show "filter is_io (events (run H (session_operator H s Success transfered) xs))
            = filter is_io (events s)"
    using run_no_pending[OF pn, of H xs] failure_path(2)[OF f, of H s' 0] I by (simp add: eq)
  show "written (events (run H (session_operator H s Success transfered) xs))
            = written (events s)"
    using run_no_pending[OF pn, of H xs] failure_path(3)[OF f, of H s' 0] W by (simp add: eq)
next
  assume "failed e \<and> pending s = Some PendingRead"
  then show "deliver H s (ReadComplete e bytes) =
          emit (Log DEBUG (Text ''end of session coroutine''))
            (atClose H
               (emit (if e = Eof then Log DEBUG (Text ''client close connection'')
                      else if e = OperationAborted then Log DEBUG (Text ''session canceled'')
                      else Log ERROR (Message e))
                  (s\<lparr>reqBuffer := reqBuffer s @ bytes, pending := None\<rparr>)))"
    by (simp add: session_operator_failed)
next
  assume "other \<noteq> session"
  then show "store (srv_deliver H srv (SessionStimulus session x)) ! other = store srv ! other" by simp
next
  show "sessions (srv_deliver H srv (SessionStimulus session x)) = sessions srv" by simp
next
  show "accept_pending (srv_deliver H srv (SessionStimulus session x)) = accept_pending srv" by simp
next
  show "srv_events (srv_deliver H srv (SessionStimulus session x)) = srv_events srv" by simp
qed

theorem unexpected_handler_error_witness:
  "coro strict_session = Yield1 \<and> pending strict_session = None
   \<and> fst (handle_loop strict_handler (emit (Log DEBUG (Text ''readed: %1.3fKb'')) strict_session)
            (view_of (reqBuffer strict_session))) = ReturnError (OtherError 22)
   \<and> resBuffer (session_operator strict_handler strict_session Success 5) = ''a\<newline>''
   \<and> isOpen (session_operator strict_handler strict_session Success 5) = False
   \<and> written (events (run strict_handler (session_operator strict_handler strict_session Success 5)
                 [WriteComplete Success 2, CloseCall])) = []"
proof -
  let ?r = "handle_loop strict_handler (emit (Log DEBUG (Text ''readed: %1.3fKb'')) strict_session)
              (view_of (reqBuffer strict_session))"
  have c: "coro strict_session = Yield1 \<and> pending strict_session = None"
    by code_simp
  have f: "fst ?r = ReturnError (OtherError 22)"
    by code_simp
  then have r: "?r = (ReturnError (OtherError 22), snd ?r)"
    by (metis prod.collapse)
  have b: "resBuffer (snd ?r) = ''a\<newline>''"
    by code_simp
  have w: "written (events strict_session) = []"
    by code_simp
  note t = unexpected_handler_error[where H = strict_handler and s = strict_session
      and e = "OtherError 22" and s' = "snd ?r" and transfered = 5
      and xs = "[WriteComplete Success 2, CloseCall]", THEN conjunct2, THEN conjunct1, rule_format]
  have "resBuffer (session_operator strict_handler strict_session Success 5) = resBuffer (snd ?r)
      \<and> isOpen (session_operator strict_handler strict_session Success 5) = False
      \<and> written (events (run strict_handler (session_operator strict_handler strict_session Success 5)
                 [WriteComplete Success 2, CloseCall])) = written (events strict_session)"
    using t[OF conjI[OF conjunct1[OF c] conjI[OF conjunct2[OF c] r]]]
    by (elim conjE, intro conjI)
  then show ?thesis
    using c f by (simp only: b w)
qed

text \<open>
  C5. With the echo handler, the bytes written after a read of \<open>hel\<close> and a read of
  \<open>lo\<close> with its line feed are the bytes written after one read of \<open>hello\<close> with its
  line feed: the 6 bytes of the line. More generally, for a session that waits for a read
  with empty buffers and any two reads that a \<^verbatim>\<open>std::string\<close> can hold together (fewer
  than \<open>2^64\<close> bytes), the second after the write of the first has completed if there was
  one: the bytes written are those written for one read of the two pieces together,
  namely the complete lines of the input, and the same bytes stay in the inbound buffer.
\<close>

theorem split_read_same_output:
  "written (events (run EchoReqHandler echo_session
       [ReadComplete Success ''hel'', ReadComplete Success ''lo\<newline>''])) = ''hello\<newline>''
   \<and> written (events (run EchoReqHandler echo_session
       [ReadComplete Success ''hello\<newline>''])) = ''hello\<newline>''
   \<and> (pending s = Some PendingRead \<and> coro s = Yield1 \<and> reqBuffer s = [] \<and> resBuffer s = []
       \<and> length a + length b < 2 ^ 64 \<longrightarrow>
        written (events (run EchoReqHandler s
           [ReadComplete Success a, WriteComplete Success k, ReadComplete Success b]))
          = written (events s) @ complete_lines (a @ b)
        \<and> written (events (run EchoReqHandler s [ReadComplete Success (a @ b)]))
          = written (events s) @ complete_lines (a @ b)
        \<and> reqBuffer (run EchoReqHandler s
           [ReadComplete Success a, WriteComplete Success k, ReadComplete Success b])
          = reqBuffer (run EchoReqHandler s [ReadComplete Success (a @ b)]))"
proof (intro conjI impI)
  show "written (events (run EchoReqHandler echo_session
       [ReadComplete Success ''hel'', ReadComplete Success ''lo\<newline>''])) = ''hello\<newline>''"
    by (simp add: eval_defs)
  show "written (events (run EchoReqHandler echo_session
       [ReadComplete Success ''hello\<newline>''])) = ''hello\<newline>''"
    by (simp add: eval_defs)
next
  assume a: "pending s = Some PendingRead \<and> coro s = Yield1 \<and> reqBuffer s = [] \<and> resBuffer s = []
       \<and> length a + length b < 2 ^ 64"
  then have p: "pending s = Some PendingRead" and c: "coro s = Yield1"
    and q: "reqBuffer s = []" and b: "resBuffer s = []"
    and size: "length a + length b < 2 ^ 64" by simp_all
  have "length (complete_lines a @ incomplete_line a) = length a"
    by (simp only: complete_incomplete)
  then have tail: "length (incomplete_line a) \<le> length a" by simp
  have size1: "length (reqBuffer s @ a) < 2 ^ 64" using size q by simp
  have size12: "length (reqBuffer s @ a @ b) < 2 ^ 64" using size q by simp
  let ?s1 = "deliver EchoReqHandler s (ReadComplete Success a)"
  let ?s2 = "deliver EchoReqHandler ?s1 (WriteComplete Success k)"
  let ?s3 = "deliver EchoReqHandler ?s2 (ReadComplete Success b)"
  note r1 = echo_read[OF p c b size1]
  have rest: "pending ?s2 = Some PendingRead \<and> coro ?s2 = Yield1 \<and> resBuffer ?s2 = []
      \<and> reqBuffer ?s2 = reqBuffer ?s1 \<and> written (events ?s2) = written (events ?s1)"
  proof (cases "complete_lines (reqBuffer s @ a) = []")
    case True
    from r1(3)[OF True] show ?thesis by simp
  next
    case False
    from r1(4)[OF False] show ?thesis by (intro echo_write_complete) simp_all
  qed
  then have p2: "pending ?s2 = Some PendingRead" and c2: "coro ?s2 = Yield1"
    and b2: "resBuffer ?s2 = []" and q2: "reqBuffer ?s2 = incomplete_line a"
    and w2: "written (events ?s2) = written (events s) @ complete_lines a"
    using r1(1,2) q by simp_all
  have size3: "length (reqBuffer ?s2 @ b) < 2 ^ 64" using size tail q2 by simp
  note r3 = echo_read[OF p2 c2 b2 size3]
  have run3: "run EchoReqHandler s
           [ReadComplete Success a, WriteComplete Success k, ReadComplete Success b] = ?s3"
    by (simp add: run_def del: deliver.simps)
  have run1: "run EchoReqHandler s [ReadComplete Success (a @ b)]
           = deliver EchoReqHandler s (ReadComplete Success (a @ b))"
    by (simp add: run_def del: deliver.simps)
  note r = echo_read[OF p c b size12]
  show "written (events (run EchoReqHandler s
           [ReadComplete Success a, WriteComplete Success k, ReadComplete Success b]))
          = written (events s) @ complete_lines (a @ b)"
    unfolding run3 using r3(1) w2 q2 complete_lines_append[of a b] by simp
  show "written (events (run EchoReqHandler s [ReadComplete Success (a @ b)]))
          = written (events s) @ complete_lines (a @ b)"
    unfolding run1 using r(1) q by simp
  have i: "incomplete_line (incomplete_line a @ b) = incomplete_line (a @ b)"
  proof (cases "complete_lines a = []")
    case True
    then show ?thesis using complete_incomplete[of a] by simp
  next
    case False
    from complete_lines_last[OF False] obtain l where l: "complete_lines a = l @ [CHR 0x0A]" ..
    have "a @ b = (l @ [CHR 0x0A]) @ (incomplete_line a @ b)"
      using complete_incomplete[of a] l by simp
    then have "incomplete_line (a @ b) = incomplete_line ((l @ [CHR 0x0A]) @ (incomplete_line a @ b))"
      by (rule arg_cong)
    then show ?thesis by (simp only: complete_lines_line(2))
  qed
  show "reqBuffer (run EchoReqHandler s
           [ReadComplete Success a, WriteComplete Success k, ReadComplete Success b])
          = reqBuffer (run EchoReqHandler s [ReadComplete Success (a @ b)])"
    unfolding run3 run1 using r3(2) r(2) q2 q i by simp
qed

theorem split_read_same_output_witness:
  "pending echo_session = Some PendingRead \<and> coro echo_session = Yield1
   \<and> reqBuffer echo_session = [] \<and> resBuffer echo_session = []
   \<and> length ''hel'' + length ''lo\<newline>'' < (2::nat) ^ 64
   \<and> written (events (run EchoReqHandler echo_session
         [ReadComplete Success ''hel'', WriteComplete Success 0, ReadComplete Success ''lo\<newline>'']))
       = ''hello\<newline>''
   \<and> written (events (run EchoReqHandler echo_session [ReadComplete Success (''hel'' @ ''lo\<newline>'')]))
       = ''hello\<newline>''"
proof -
  have e0: "pending echo_session = Some PendingRead \<and> coro echo_session = Yield1
             \<and> reqBuffer echo_session = [] \<and> resBuffer echo_session = []"
    by code_simp
  have sz: "length ''hel'' + length ''lo\<newline>'' < (2::nat) ^ 64"
    by simp
  have e: "pending echo_session = Some PendingRead \<and> coro echo_session = Yield1
             \<and> reqBuffer echo_session = [] \<and> resBuffer echo_session = []
             \<and> length ''hel'' + length ''lo\<newline>'' < (2::nat) ^ 64"
    using e0 sz by (elim conjE, intro conjI)
  have w: "written (events echo_session) @ complete_lines (''hel'' @ ''lo\<newline>'') = ''hello\<newline>''"
    by code_simp
  note t = split_read_same_output[where s = echo_session and a = "''hel''" and b = "''lo\<newline>''"
      and k = 0, THEN conjunct2, THEN conjunct2, rule_format, OF e]
  show ?thesis
    using t e unfolding w by (elim conjE, intro conjI)
qed

text \<open>
  C8. When an accept completes without error, the accept loop issues the next accept
  whatever the handling of the connection did: an exception that leaves the \<open>try\<close> block
  (the peer address cannot be resolved, the factory throws) is logged as an error and the
  next accept follows. When an accept completes with an error, nothing but log records
  is added (debug records only for a cancellation, an error record otherwise), no accept
  is issued, and none is ever issued afterwards.
\<close>

theorem accept_loop_survives:
  "(srv_coro srv = AcceptYield \<and> \<not> failed err \<longrightarrow>
      accept_pending (server_operator H srv err sock)
      \<and> srv_coro (server_operator H srv err sock) = AcceptYield
      \<and> last (srv_events (server_operator H srv err sock)) = AsyncAccept
      \<and> (\<forall>e. fst (accept_body H (srv_emit (Log DEBUG (Text ''accept new connection'')) srv) sock)
                = Some e \<longrightarrow>
             srv_events (server_operator H srv err sock) =
               srv_events (snd (accept_body H
                  (srv_emit (Log DEBUG (Text ''accept new connection'')) srv) sock))
               @ [Log ERROR (What e), AsyncAccept]))
   \<and> (remote_endpoint sock = Inl e \<longrightarrow> accept_body H srv sock = (Some e, srv))
   \<and> (remote_endpoint sock = Inr peer \<and> reqHandlerFactory srv () = Inl e \<longrightarrow>
        fst (accept_body H srv sock) = Some e)
   \<and> (failed err \<longrightarrow>
        server_operator H srv err sock =
          srv\<lparr>srv_events := srv_events srv @
            [if err = OperationAborted then Log DEBUG (Text ''accepting canceled'')
             else Log ERROR (Message err),
             Log DEBUG (Text ''break the server coroutine'')]\<rparr>)
   \<and> (failed err \<and> accept_pending srv \<longrightarrow>
        \<not> accept_pending (srv_run H (srv_deliver H srv (AcceptComplete err sock)) xs)
        \<and> filter is_accept (srv_events (srv_run H (srv_deliver H srv (AcceptComplete err sock)) xs))
            = filter is_accept (srv_events srv))"
proof (intro conjI impI allI)
  assume a: "srv_coro srv = AcceptYield \<and> \<not> failed err"
  let ?srv1 = "srv_emit (Log DEBUG (Text ''accept new connection'')) srv"
  obtain exc srv2 where b: "accept_body H ?srv1 sock = (exc, srv2)"
    by (cases "accept_body H ?srv1 sock")
  have eq: "server_operator H srv err sock =
      (case exc of Some e \<Rightarrow> async_accept (srv_emit (Log ERROR (What e)) srv2)
                 | None \<Rightarrow> async_accept srv2)"
    using a by (simp add: server_operator_def Let_def b split: option.splits)
  show "accept_pending (server_operator H srv err sock)"
    by (simp add: eq async_accept_def srv_emit_def split: option.splits)
  show "srv_coro (server_operator H srv err sock) = AcceptYield"
    by (simp add: eq async_accept_def srv_emit_def split: option.splits)
  show "last (srv_events (server_operator H srv err sock)) = AsyncAccept"
    by (simp add: eq async_accept_def srv_emit_def split: option.splits)
  fix e
  assume f: "fst (accept_body H ?srv1 sock) = Some e"
  have "exc = Some e" using f unfolding b by simp
  then show "srv_events (server_operator H srv err sock) =
               srv_events (snd (accept_body H ?srv1 sock)) @ [Log ERROR (What e), AsyncAccept]"
    unfolding eq b by (simp add: async_accept_def srv_emit_def)
next
  assume "remote_endpoint sock = Inl e"
  then show "accept_body H srv sock = (Some e, srv)"
    by (simp add: accept_body_def)
next
  assume "remote_endpoint sock = Inr peer \<and> reqHandlerFactory srv () = Inl e"
  then show "fst (accept_body H srv sock) = Some e"
    by (simp add: accept_body_def Let_def srv_emit_def)
next
  assume "failed err"
  then show "server_operator H srv err sock =
          srv\<lparr>srv_events := srv_events srv @
            [if err = OperationAborted then Log DEBUG (Text ''accepting canceled'')
             else Log ERROR (Message err),
             Log DEBUG (Text ''break the server coroutine'')]\<rparr>"
    by (rule server_operator_failed)
next
  assume a: "failed err \<and> accept_pending srv"
  let ?s = "srv_deliver H srv (AcceptComplete err sock)"
  have s: "?s = srv\<lparr>accept_pending := False, srv_events := srv_events srv @
            [if err = OperationAborted then Log DEBUG (Text ''accepting canceled'')
             else Log ERROR (Message err),
             Log DEBUG (Text ''break the server coroutine'')]\<rparr>"
    using a by (simp add: server_operator_failed)
  have n: "\<not> accept_pending ?s" and f: "filter is_accept (srv_events ?s) = filter is_accept (srv_events srv)"
    unfolding s by (simp_all add: is_accept_def)
  from srv_run_stopped[OF n, of H xs] f
  show "\<not> accept_pending (srv_run H ?s xs)"
    and "filter is_accept (srv_events (srv_run H ?s xs)) = filter is_accept (srv_events srv)"
    by simp_all
qed


theorem accept_loop_survives_witness:
  "srv_coro (sample_server\<lparr>accept_pending := False\<rparr>) = AcceptYield \<and> \<not> failed Success
   \<and> remote_endpoint vanished_socket = Inl (SystemError (OtherError 107))
   \<and> accept_pending (srv_deliver EchoReqHandler sample_server (AcceptComplete Success vanished_socket))
   \<and> srv_events (srv_deliver EchoReqHandler sample_server (AcceptComplete Success vanished_socket))
       = srv_events sample_server @
         [Log DEBUG (Text ''accept new connection''),
          Log ERROR (What (SystemError (OtherError 107))), AsyncAccept]
   \<and> failed OperationAborted \<and> accept_pending sample_server
   \<and> srv_events (srv_run EchoReqHandler
         (srv_deliver EchoReqHandler sample_server (AcceptComplete OperationAborted unconnected_socket))
         [AcceptComplete Success sample_socket])
       = srv_events sample_server @
         [Log DEBUG (Text ''accepting canceled''), Log DEBUG (Text ''break the server coroutine'')]"
proof -
  let ?srv = "sample_server\<lparr>accept_pending := False\<rparr>"
  let ?srv1 = "srv_emit (Log DEBUG (Text ''accept new connection'')) ?srv"
  have c: "srv_coro ?srv = AcceptYield \<and> \<not> failed Success"
    by code_simp
  have p: "accept_pending sample_server" by code_simp
  have v: "remote_endpoint vanished_socket = Inl (SystemError (OtherError 107))"
    by code_simp
  have f: "failed OperationAborted" by (simp add: failed_def)
  note t = accept_loop_survives[where H = EchoReqHandler and srv = ?srv and err = Success
      and sock = vanished_socket and e = "SystemError (OtherError 107)"]
  have b: "accept_body EchoReqHandler ?srv1 vanished_socket = (Some (SystemError (OtherError 107)), ?srv1)"
    using accept_loop_survives[where H = EchoReqHandler and srv = ?srv1
      and sock = vanished_socket and e = "SystemError (OtherError 107)"] v by blast
  have d: "srv_deliver EchoReqHandler sample_server (AcceptComplete Success vanished_socket)
             = server_operator EchoReqHandler ?srv Success vanished_socket"
    using p by simp
  have 1: "accept_pending (server_operator EchoReqHandler ?srv Success vanished_socket)"
    using t c by blast
  have "srv_events (server_operator EchoReqHandler ?srv Success vanished_socket)
          = srv_events (snd (accept_body EchoReqHandler ?srv1 vanished_socket))
            @ [Log ERROR (What (SystemError (OtherError 107))), AsyncAccept]"
    using t c b by (metis fst_conv)
  then have 2: "srv_events (server_operator EchoReqHandler ?srv Success vanished_socket)
       = srv_events sample_server @
         [Log DEBUG (Text ''accept new connection''),
          Log ERROR (What (SystemError (OtherError 107))), AsyncAccept]"
    unfolding b by (simp add: srv_emit_def)
  have 3: "srv_events (srv_run EchoReqHandler
         (srv_deliver EchoReqHandler sample_server (AcceptComplete OperationAborted unconnected_socket))
         [AcceptComplete Success sample_socket])
       = srv_events sample_server @
         [Log DEBUG (Text ''accepting canceled''), Log DEBUG (Text ''break the server coroutine'')]"
    by code_simp
  show ?thesis
    unfolding d by (intro conjI c[THEN conjunct1] c[THEN conjunct2] v 1 2 f p 3)
qed

text \<open>
  C4, as amended. Under the TCP selector, and for an endpoint string whose port is not a
  five digit number above 65535: \<open>build\<close> succeeds only if the string is a host, a colon
  and a port, where the host is not empty, holds no colon and is accepted by
  \<^verbatim>\<open>make_address\<close>, and the port is a decimal number from 0 to 65535; if the string has
  not this form \<open>build\<close> fails with \<^verbatim>\<open>std::invalid_argument\<close>. Whatever the port, if
  the host before the first colon is not an address \<open>build\<close> fails with
  \<^verbatim>\<open>std::invalid_argument\<close>.
\<close>

theorem build_tcp:
  "b_protocol b = Tcp \<longrightarrow>
     (build make_address listen b = Inr srv \<and> \<not> port_above_16_bits (b_endpoint b) \<longrightarrow>
        (\<exists>host port addr.
           b_endpoint b = host @ CHR '':'' # port \<and> host \<noteq> [] \<and> CHR '':'' \<notin> set host
           \<and> port \<noteq> [] \<and> list_all is_digit port \<and> stoi port \<le> 65535
           \<and> make_address host = Some addr))
   \<and> (\<not> port_above_16_bits (b_endpoint b) \<and>
       (\<nexists>host port. b_endpoint b = host @ CHR '':'' # port \<and> host \<noteq> [] \<and> CHR '':'' \<notin> set host
           \<and> port \<noteq> [] \<and> list_all is_digit port \<and> stoi port \<le> 65535) \<longrightarrow>
        (\<exists>msg. build make_address listen b = Inl (InvalidArgument msg)))
   \<and> (b_endpoint b = host @ CHR '':'' # port \<and> CHR '':'' \<notin> set host
       \<and> make_address host = None \<longrightarrow>
        (\<exists>msg. build make_address listen b = Inl (InvalidArgument msg)))"
proof (intro impI conjI)
  assume t: "b_protocol b = Tcp"
    and r: "build make_address listen b = Inr srv \<and> \<not> port_above_16_bits (b_endpoint b)"
  from r t obtain factory host port addr where
    m: "hostAndPortReg (b_endpoint b) = Some (host, port)"
    and a: "make_address host = Some addr"
    by (auto simp: build_def Let_def split: option.splits prod.splits)
  from m have h: "b_endpoint b = host @ CHR '':'' # port" "host \<noteq> []" "CHR '':'' \<notin> set host"
     "1 \<le> length port" "list_all is_digit port"
    by (simp_all add: hostAndPortReg_Some)
  from h(4) have ne: "port \<noteq> []" by auto
  from accepted_port_range[OF m] r have "stoi port \<le> 65535" by simp
  with h ne a show "\<exists>host port addr.
           b_endpoint b = host @ CHR '':'' # port \<and> host \<noteq> [] \<and> CHR '':'' \<notin> set host
           \<and> port \<noteq> [] \<and> list_all is_digit port \<and> stoi port \<le> 65535
           \<and> make_address host = Some addr"
    by blast
next
  assume t: "b_protocol b = Tcp" and a: "\<not> port_above_16_bits (b_endpoint b) \<and>
       (\<nexists>host port. b_endpoint b = host @ CHR '':'' # port \<and> host \<noteq> [] \<and> CHR '':'' \<notin> set host
           \<and> port \<noteq> [] \<and> list_all is_digit port \<and> stoi port \<le> 65535)"
  have n: "hostAndPortReg (b_endpoint b) = None"
  proof (cases "hostAndPortReg (b_endpoint b)")
    case None
    then show ?thesis .
  next
    case (Some hp)
    obtain host port where hp: "hp = (host, port)" by (cases hp)
    from Some hp have m: "hostAndPortReg (b_endpoint b) = Some (host, port)" by simp
    then have h: "b_endpoint b = host @ CHR '':'' # port" "host \<noteq> []" "CHR '':'' \<notin> set host"
       "1 \<le> length port" "list_all is_digit port"
      by (simp_all add: hostAndPortReg_Some)
    from h(4) have ne: "port \<noteq> []" by auto
    from accepted_port_range[OF m] a have "stoi port \<le> 65535" by simp
    with h ne a show ?thesis by blast
  qed
  show "\<exists>msg. build make_address listen b = Inl (InvalidArgument msg)"
    using t n by (cases "b_reqHandlerFactory b") (simp_all add: build_def)
next
  assume t: "b_protocol b = Tcp" and a: "b_endpoint b = host @ CHR '':'' # port
       \<and> CHR '':'' \<notin> set host \<and> make_address host = None"
  show "\<exists>msg. build make_address listen b = Inl (InvalidArgument msg)"
  proof (cases "hostAndPortReg (b_endpoint b)")
    case None
    then show ?thesis using t by (cases "b_reqHandlerFactory b") (simp_all add: build_def)
  next
    case (Some hp)
    obtain h p where hp: "hp = (h, p)" by (cases hp)
    from Some hp a have "hostAndPortReg (host @ CHR '':'' # port) = Some (h, p)" by simp
    from hostAndPortReg_host[OF this] a have "h = host" by simp
    then show ?thesis
      using t a Some hp by (cases "b_reqHandlerFactory b") (simp_all add: build_def)
  qed
qed

theorem build_tcp_witness:
  "b_protocol (sample_builder ''127.0.0.1:8080'') = Tcp
   \<and> build loopback_only listen_ok (sample_builder ''127.0.0.1:8080'')
       = Inr (new_server (TcpEndpoint (127, 0, 0, 1) 8080) EchoReqHandlerFactory)
   \<and> \<not> port_above_16_bits (b_endpoint (sample_builder ''127.0.0.1:8080''))
   \<and> (\<exists>host port addr.
         b_endpoint (sample_builder ''127.0.0.1:8080'') = host @ CHR '':'' # port
         \<and> list_all is_digit port \<and> stoi port \<le> 65535 \<and> loopback_only host = Some addr)
   \<and> b_endpoint (sample_builder ''example.org:80'') = ''example.org'' @ CHR '':'' # ''80''
   \<and> CHR '':'' \<notin> set ''example.org'' \<and> loopback_only ''example.org'' = None
   \<and> (\<exists>msg. build loopback_only listen_ok (sample_builder ''example.org:80'')
          = Inl (InvalidArgument msg))
   \<and> \<not> port_above_16_bits (b_endpoint (sample_builder ''localhost''))
   \<and> (\<exists>msg. build loopback_only listen_ok (sample_builder ''localhost'')
          = Inl (InvalidArgument msg))"
proof -
  have t: "b_protocol (sample_builder ep) = Tcp" for ep
    by (simp add: sample_builder_def)
  have b: "build loopback_only listen_ok (sample_builder ''127.0.0.1:8080'')
       = Inr (new_server (TcpEndpoint (127, 0, 0, 1) 8080) EchoReqHandlerFactory)"
    by (simp add: build_def sample_builder_def hostAndPortReg_def loopback_only_def listen_ok_def
        is_digit_def stoi_def digit_value_def)
  have p1: "\<not> port_above_16_bits (b_endpoint (sample_builder ''127.0.0.1:8080''))"
    by (simp add: port_above_16_bits_def sample_builder_def)
  from build_tcp[of "sample_builder ''127.0.0.1:8080''" loopback_only listen_ok, THEN mp, OF t,
      THEN conjunct1, THEN mp, OF conjI[OF b p1]]
  have 1: "\<exists>host port addr.
         b_endpoint (sample_builder ''127.0.0.1:8080'') = host @ CHR '':'' # port
         \<and> list_all is_digit port \<and> stoi port \<le> 65535 \<and> loopback_only host = Some addr"
    by blast
  have h2: "b_endpoint (sample_builder ''example.org:80'') = ''example.org'' @ CHR '':'' # ''80''"
    "CHR '':'' \<notin> set ''example.org''" "loopback_only ''example.org'' = None"
    by (simp_all add: sample_builder_def loopback_only_def)
  from build_tcp[of "sample_builder ''example.org:80''" loopback_only listen_ok _
      "''example.org''" "''80''", THEN mp, OF t, THEN conjunct2, THEN conjunct2, THEN mp,
      OF conjI[OF h2(1) conjI[OF h2(2) h2(3)]]]
  have 2: "\<exists>msg. build loopback_only listen_ok (sample_builder ''example.org:80'')
          = Inl (InvalidArgument msg)" .
  have p3: "\<not> port_above_16_bits (b_endpoint (sample_builder ''localhost''))"
    by (simp add: port_above_16_bits_def sample_builder_def)
  have nc: "''localhost'' \<noteq> host @ CHR '':'' # port" for host port
  proof
    assume e: "''localhost'' = host @ CHR '':'' # port"
    have "CHR '':'' \<in> set (host @ CHR '':'' # port)" by simp
    then have "CHR '':'' \<in> set ''localhost''" unfolding e[symmetric] .
    then show False by simp
  qed
  have h3: "\<nexists>host port. b_endpoint (sample_builder ''localhost'') = host @ CHR '':'' # port
           \<and> host \<noteq> [] \<and> CHR '':'' \<notin> set host
           \<and> port \<noteq> [] \<and> list_all is_digit port \<and> stoi port \<le> 65535"
    using nc by (simp add: sample_builder_def)
  from build_tcp[of "sample_builder ''localhost''" loopback_only listen_ok, THEN mp, OF t,
      THEN conjunct2, THEN conjunct1, THEN mp, OF conjI[OF p3 h3]]
  have 3: "\<exists>msg. build loopback_only listen_ok (sample_builder ''localhost'')
          = Inl (InvalidArgument msg)" .
  show ?thesis by (intro conjI t b p1 1 h2 2 p3 3)
qed

text \<open>
  C4 as stated fails: port 0 is outside 1 to 65535, and \<open>build\<close> succeeds with it.
\<close>

theorem build_tcp_counterexample:
  "map_sum id listen_endpoint (build loopback_only listen_ok (sample_builder ''127.0.0.1:0''))
     = Inr (TcpEndpoint (127, 0, 0, 1) 0)
   \<and> stoi ''0'' = 0"
  by (simp add: build_def sample_builder_def hostAndPortReg_def loopback_only_def listen_ok_def
        new_server_def is_digit_def stoi_def digit_value_def)

text \<open>
  The endpoint strings left out above: a port of five digits above 65535 passes the
  regular expression, and the conversion to \<^verbatim>\<open>unsigned short\<close> makes 99999 the port
  34463.
\<close>

lemma build_tcp_port_wraps:
  "port_above_16_bits ''127.0.0.1:99999''
   \<and> map_sum id listen_endpoint (build loopback_only listen_ok (sample_builder ''127.0.0.1:99999''))
     = Inr (TcpEndpoint (127, 0, 0, 1) 34463)
   \<and> stoi ''99999'' = 99999"
  by (simp add: build_def sample_builder_def hostAndPortReg_def loopback_only_def listen_ok_def
        new_server_def is_digit_def stoi_def digit_value_def port_above_16_bits_def)

end
